theory Spec2Isabelle
  imports Complex_Main "HOL-Library.AList"
begin

section \<open>JavaScript values shared by the models\<close>

text \<open>
  The client code passes untyped JSON-like objects around.  They are embedded as a datatype;
  numbers are restricted to integers (timestamps, counters and status codes are all the
  code computes with).  \<open>JUndefined\<close> is the value of a missing property.
\<close>

datatype jsval =
    JUndefined
  | JNull
  | JBool bool
  | JNum int
  | JStr string
  | JArr "jsval list"
  | JObj "(string \<times> jsval) list"

text \<open>Truthiness as used by \<open>||\<close>, \<open>&&\<close>, \<open>!\<close> and \<open>if\<close>.\<close>

fun truthy :: "jsval \<Rightarrow> bool" where
  "truthy JUndefined = False"
| "truthy JNull = False"
| "truthy (JBool b) = b"
| "truthy (JNum n) = (n \<noteq> 0)"
| "truthy (JStr s) = (s \<noteq> [])"
| "truthy (JArr xs) = True"
| "truthy (JObj kvs) = True"

text \<open>\<open>a || b\<close> on values.\<close>

definition js_or :: "jsval \<Rightarrow> jsval \<Rightarrow> jsval" where
  "js_or a b = (if truthy a then a else b)"

text \<open>Property read \<open>o.k\<close> on an object value; a missing property reads as \<open>undefined\<close>.\<close>

fun js_get :: "jsval \<Rightarrow> string \<Rightarrow> jsval" where
  "js_get (JObj kvs) k = (case map_of kvs k of None \<Rightarrow> JUndefined | Some v \<Rightarrow> v)"
| "js_get v k = JUndefined"

section \<open>String tests and thrown values\<close>

text \<open>\<open>s.startsWith(p)\<close>, \<open>s.endsWith(p)\<close> and \<open>s.includes(p)\<close>.\<close>

fun startsWith :: "string \<Rightarrow> string \<Rightarrow> bool" where
  "startsWith s [] = True"
| "startsWith [] (c # p) = False"
| "startsWith (a # s) (c # p) = (a = c \<and> startsWith s p)"

definition endsWith :: "string \<Rightarrow> string \<Rightarrow> bool" where
  "endsWith s p = startsWith (rev s) (rev p)"

fun str_includes :: "string \<Rightarrow> string \<Rightarrow> bool" where
  "str_includes [] p = (p = [])"
| "str_includes (a # s) p = (startsWith (a # s) p \<or> str_includes s p)"

text \<open>
  What a \<open>throw\<close> or a rejected promise carries.  \<open>FetchFailed\<close> is the \<open>TypeError\<close> of a
  \<open>fetch\<close> that got no response, \<open>HttpError st\<close> the \<open>new Error(`HTTP ${status}`)\<close> of the
  code, \<open>ReferenceError x\<close> the read of an identifier \<open>x\<close> that no scope binds.
\<close>

datatype js_error =
    FetchFailed
  | HttpError nat
  | ReferenceError string
  | StorageError
  | OtherError string

text \<open>How an awaited promise settles, or how a call completes.\<close>

datatype 'a outcome = Resolved 'a | Rejected js_error

text \<open>
  The user-visible texts of the source are Thai string literals.  The theory is ASCII, so
  each constant below stands for the literal at the place named, and gives its meaning.
\<close>

definition msg_no_internet :: string where
  \<comment> \<open>sw.js lines 128, 232, 238, 245\<close>
  "msg_no_internet = ''no internet connection''"

section \<open>The service worker (public/sw.js)\<close>

subsection \<open>Requests, responses and the platform's cache storage\<close>



record response =
  rs_status :: nat
  rs_statusText :: string
  rs_headers :: "(string \<times> string) list"
  rs_body :: string

text \<open>\<open>response.ok\<close>: the status is in the range 200 to 299.\<close>

definition ok :: "response \<Rightarrow> bool" where
  "ok r = (200 \<le> rs_status r \<and> rs_status r \<le> 299)"



text \<open>
  The platform's \<open>CacheStorage\<close>: named caches in creation order, each a table from the URL
  of a GET request to the stored response.  \<open>caches.match\<close> searches every cache in that
  order; \<open>caches.open(name)\<close> followed by \<open>cache.put\<close> creates the cache when it is missing
  and replaces an entry for the same URL.
\<close>

type_synonym cache_storage = "(string \<times> (string \<times> response) list) list"

fun caches_match :: "cache_storage \<Rightarrow> string \<Rightarrow> response option" where
  "caches_match [] u = None"
| "caches_match ((n, c) # cs) u =
     (case map_of c u of Some r \<Rightarrow> Some r | None \<Rightarrow> caches_match cs u)"

fun cache_put :: "string \<Rightarrow> string \<Rightarrow> response \<Rightarrow> cache_storage \<Rightarrow> cache_storage" where
  "cache_put name u r [] = [(name, [(u, r)])]"
| "cache_put name u r ((n, c) # cs) =
     (if n = name then (n, AList.update u r c) # cs else (n, c) # cache_put name u r cs)"






subsection \<open>Helper functions (sw.js lines 220 to 268)\<close>




text \<open>
  The object \<open>offlineData\<close> that \<open>createOfflineAPIResponse\<close> serialises.  \<open>today\<close> is
  \<open>new Date().toLocaleDateString('th-TH')\<close>.
\<close>

definition offlineData :: "string \<Rightarrow> string \<Rightarrow> jsval" where
  "offlineData today pathname =
     (if str_includes pathname ''/employees'' then
        JObj [(''success'', JBool False), (''msg'', JStr msg_no_internet),
              (''offline'', JBool True), (''employees'', JArr [])]
      else if str_includes pathname ''/dashboard'' then
        JObj [(''success'', JBool False), (''msg'', JStr msg_no_internet),
              (''offline'', JBool True),
              (''today'', JObj [(''total_employees'', JNum 0), (''checked_in'', JNum 0),
                                (''not_checked_out'', JNum 0), (''date'', JStr today)])]
      else if str_includes pathname ''/getLiffId'' then
        JObj [(''success'', JBool True), (''liffId'', JStr ''2001032478-VR5Akj0k'')]
      else
        JObj [(''success'', JBool False), (''msg'', JStr msg_no_internet)])"

text \<open>\<open>stringify\<close> is the platform's \<open>JSON.stringify\<close>.\<close>

definition createOfflineAPIResponse :: "(jsval \<Rightarrow> string) \<Rightarrow> string \<Rightarrow> string \<Rightarrow> response" where
  "createOfflineAPIResponse stringify today pathname =
     \<lparr>rs_status = 200, rs_statusText = [],
      rs_headers = [(''Content-Type'', ''application/json''),
                    (''X-Served-By'', ''ServiceWorker-Offline'')],
      rs_body = stringify (offlineData today pathname)\<rparr>"

subsection \<open>The strategies (sw.js lines 136 to 217)\<close>






subsection \<open>The request handler and the fetch listener (sw.js lines 80 to 133)\<close>






subsection \<open>The classification of section 4.1 of the specification\<close>

text \<open>
  The rules of the specification, in its order and its words, to compare the listener with.
\<close>

datatype strategy =
    Passthrough
  | CacheFirst
  | NetworkFirstWithFallback
  | NetworkFirst
  | NetworkOnly

definition spec_static_asset :: "string \<Rightarrow> bool" where
  \<comment> \<open>a fixed list of path suffixes: stylesheets, scripts, images, fonts, markup, or the root path\<close>
  "spec_static_asset path =
     (endsWith path ''.css'' \<or> endsWith path ''.js'' \<or>
      endsWith path ''.png'' \<or> endsWith path ''.jpg'' \<or> endsWith path ''.jpeg'' \<or>
      endsWith path ''.gif'' \<or> endsWith path ''.svg'' \<or> endsWith path ''.ico'' \<or>
      endsWith path ''.woff'' \<or> endsWith path ''.woff2'' \<or>
      endsWith path ''.html'' \<or> path = ''/'')"

definition spec_classify :: "string \<Rightarrow> string \<Rightarrow> string \<Rightarrow> string \<Rightarrow> strategy" where
  "spec_classify own origin method path =
     (if origin \<noteq> own then Passthrough
      else if method \<noteq> ''GET'' then Passthrough
      else if spec_static_asset path then CacheFirst
      else if startsWith path ''/api/'' then NetworkFirstWithFallback
      else if endsWith path ''.html'' \<or> path = ''/'' then NetworkFirst
      else NetworkOnly)"


subsection \<open>Sample data for the service worker\<close>




subsection \<open>Background sync of the pending stores (sw.js lines 282 to 339, 398 to 443)\<close>

text \<open>
  A record of the object stores \<open>pendingClockIns\<close> and \<open>pendingClockOuts\<close>: the key \<open>id\<close>
  (\<open>keyPath: 'id', autoIncrement: true\<close>) and the request payload \<open>data\<close>.
\<close>

record pending =
  pd_id :: nat
  pd_data :: jsval

text \<open>
  The platform's object store with a key generator: the records in ascending key order,
  which is the order \<open>getAll()\<close> returns them in, and the next key to hand out.  \<open>add\<close> gives
  a new record the next key; \<open>delete(id)\<close> removes the record with that key.
\<close>

record idb_store =
  st_records :: "pending list"
  st_nextKey :: nat

definition idb_empty :: idb_store where
  "idb_empty = \<lparr>st_records = [], st_nextKey = 1\<rparr>"

definition idb_add :: "idb_store \<Rightarrow> jsval \<Rightarrow> idb_store" where
  "idb_add st d =
     \<lparr>st_records = st_records st @ [\<lparr>pd_id = st_nextKey st, pd_data = d\<rparr>],
      st_nextKey = Suc (st_nextKey st)\<rparr>"

definition idb_delete :: "nat \<Rightarrow> idb_store \<Rightarrow> idb_store" where
  "idb_delete k st = st\<lparr>st_records := filter (\<lambda>p. pd_id p \<noteq> k) (st_records st)\<rparr>"

text \<open>
  What the environment does during one pass: whether \<open>openIndexedDB\<close> and \<open>getStoredData\<close>
  resolve, how the \<open>fetch\<close> of the entry at position \<open>i\<close> of the pass settles, whether the
  \<open>removeStoredData\<close> after it resolves, and whether \<open>self.registration.showNotification\<close>
  exists.
\<close>

record sync_env =
  se_open :: bool
  se_getAll :: bool
  se_fetch :: "nat \<Rightarrow> string \<Rightarrow> jsval \<Rightarrow> response outcome"
  se_remove :: "nat \<Rightarrow> bool"
  se_canNotify :: bool

text \<open>
  The worker's world: the two stores, the POST requests issued so far (endpoint and the
  payload that is serialised into the body) and the notifications shown so far.
\<close>

record sw_world =
  pendingClockIns :: idb_store
  pendingClockOuts :: idb_store
  sw_sent :: "(string \<times> jsval) list"
  sw_notes :: "(string \<times> string) list"

text \<open>The running state of one \<open>for\<close> loop: the store it deletes from, requests, notifications.\<close>

record drain =
  dr_store :: idb_store
  dr_sent :: "(string \<times> jsval) list"
  dr_notes :: "(string \<times> string) list"

definition showNotification :: "sync_env \<Rightarrow> string \<times> string \<Rightarrow> drain \<Rightarrow> drain" where
  "showNotification env note d =
     (if se_canNotify env then d\<lparr>dr_notes := dr_notes d @ [note]\<rparr> else d)"

text \<open>
  The \<open>for (const entry of pending)\<close> loop over the list that \<open>getStoredData\<close> returned, with
  its inner \<open>try\<close>/\<open>catch\<close>: a rejected fetch, a response that is not ok and a rejected
  removal all go on with the next entry.
\<close>

fun replay_loop :: "sync_env \<Rightarrow> string \<Rightarrow> string \<times> string \<Rightarrow> nat \<Rightarrow> pending list \<Rightarrow> drain \<Rightarrow> drain" where
  "replay_loop env endpoint note i [] d = d"
| "replay_loop env endpoint note i (x # xs) d =
     (let d1 = d\<lparr>dr_sent := dr_sent d @ [(endpoint, pd_data x)]\<rparr> in
      case se_fetch env i endpoint (pd_data x) of
        Rejected error \<Rightarrow> replay_loop env endpoint note (Suc i) xs d1
      | Resolved response \<Rightarrow>
          if ok response then
            (if se_remove env i then
               replay_loop env endpoint note (Suc i) xs
                 (showNotification env note
                    (d1\<lparr>dr_store := idb_delete (pd_id x) (dr_store d1)\<rparr>))
             else replay_loop env endpoint note (Suc i) xs d1)
          else replay_loop env endpoint note (Suc i) xs d1)"

definition note_clock_in :: "string \<times> string" where
  \<comment> \<open>the Thai title and body of sw.js line 300\<close>
  "note_clock_in = (''clock-in recorded'', ''the data was sent once online'')"

definition note_clock_out :: "string \<times> string" where
  \<comment> \<open>the Thai title and body of sw.js line 330\<close>
  "note_clock_out = (''clock-out recorded'', ''the data was sent once online'')"

definition syncClockInData :: "sync_env \<Rightarrow> sw_world \<Rightarrow> sw_world" where
  "syncClockInData env w =
     (if \<not> se_open env then w
      else if \<not> se_getAll env then w
      else
        let d = replay_loop env ''/api/clockin'' note_clock_in 0
                  (st_records (pendingClockIns w))
                  \<lparr>dr_store = pendingClockIns w, dr_sent = sw_sent w, dr_notes = sw_notes w\<rparr>
        in w\<lparr>pendingClockIns := dr_store d, sw_sent := dr_sent d, sw_notes := dr_notes d\<rparr>)"

definition syncClockOutData :: "sync_env \<Rightarrow> sw_world \<Rightarrow> sw_world" where
  "syncClockOutData env w =
     (if \<not> se_open env then w
      else if \<not> se_getAll env then w
      else
        let d = replay_loop env ''/api/clockout'' note_clock_out 0
                  (st_records (pendingClockOuts w))
                  \<lparr>dr_store = pendingClockOuts w, dr_sent = sw_sent w, dr_notes = sw_notes w\<rparr>
        in w\<lparr>pendingClockOuts := dr_store d, sw_sent := dr_sent d, sw_notes := dr_notes d\<rparr>)"

text \<open>The replay of the entry at position \<open>i\<close> returned a success response.\<close>

definition replay_ok :: "sync_env \<Rightarrow> string \<Rightarrow> nat \<Rightarrow> pending \<Rightarrow> bool" where
  "replay_ok env endpoint i x =
     (case se_fetch env i endpoint (pd_data x) of
        Resolved response \<Rightarrow> ok response
      | Rejected error \<Rightarrow> False)"

text \<open>The entries of a pass, from position \<open>i\<close> on, whose replay did not return a success.\<close>

fun not_synced :: "sync_env \<Rightarrow> string \<Rightarrow> nat \<Rightarrow> pending list \<Rightarrow> pending list" where
  "not_synced env endpoint i [] = []"
| "not_synced env endpoint i (x # xs) =
     (if replay_ok env endpoint i x then not_synced env endpoint (Suc i) xs
      else x # not_synced env endpoint (Suc i) xs)"

text \<open>A store filled by adding payloads one after the other, and a sample environment.\<close>

definition enqueue_all :: "jsval list \<Rightarrow> idb_store" where
  "enqueue_all ds = foldl idb_add idb_empty ds"

definition sample_env :: sync_env where
  "sample_env =
     \<lparr>se_open = True, se_getAll = True,
      se_fetch = (\<lambda>i endpoint d. if i = 0 then Rejected FetchFailed
                                  else Resolved \<lparr>rs_status = 200, rs_statusText = [],
                                                 rs_headers = [], rs_body = []\<rparr>),
      se_remove = (\<lambda>i. True), se_canNotify = True\<rparr>"

definition sample_world :: sw_world where
  "sample_world =
     \<lparr>pendingClockIns = enqueue_all [JStr ''first'', JStr ''second''],
      pendingClockOuts = idb_empty, sw_sent = [], sw_notes = []\<rparr>"

section \<open>The in-memory API cache of \<open>MobileAPIClient\<close> (mobile-core.js)\<close>

text \<open>
  \<open>this.cache\<close> is a \<open>Map\<close> from cache keys to \<open>{data, expires}\<close>.  Times are
  \<open>Date.now()\<close> readings in milliseconds, passed in explicitly.
\<close>

record 'a cache_entry =
  ce_data :: 'a
  ce_expires :: int

type_synonym 'a api_cache = "string \<rightharpoonup> 'a cache_entry"

definition setCache :: "int \<Rightarrow> string \<Rightarrow> 'a \<Rightarrow> int \<Rightarrow> 'a api_cache \<Rightarrow> 'a api_cache" where
  "setCache now key d ttl cache = cache(key \<mapsto> \<lparr>ce_data = d, ce_expires = now + ttl\<rparr>)"

text \<open>\<open>getFromCache\<close> returns the value (\<open>None\<close> for \<open>null\<close>) and the cache after the call.\<close>

definition getFromCache :: "int \<Rightarrow> string \<Rightarrow> 'a api_cache \<Rightarrow> 'a option \<times> 'a api_cache" where
  "getFromCache now key cache =
     (case cache key of
        None \<Rightarrow> (None, cache)
      | Some cached \<Rightarrow>
          if now > ce_expires cached then (None, cache(key := None))
          else (Some (ce_data cached), cache))"

definition clearCache :: "'a api_cache \<Rightarrow> 'a api_cache" where
  "clearCache cache = Map.empty"

text \<open>A history of cache operations, each with the clock reading at which it ran.\<close>

datatype 'a cache_op =
    OpSet int string 'a int
  | OpGet int string
  | OpClear

fun cache_step :: "'a api_cache \<Rightarrow> 'a cache_op \<Rightarrow> 'a api_cache" where
  "cache_step c (OpSet now key d ttl) = setCache now key d ttl c"
| "cache_step c (OpGet now key) = snd (getFromCache now key c)"
| "cache_step c OpClear = clearCache c"

definition cache_after :: "'a cache_op list \<Rightarrow> 'a api_cache" where
  "cache_after ops = foldl cache_step Map.empty ops"

text \<open>Every entry in the cache was written by a \<open>setCache\<close> of the history, with its expiry.\<close>

definition written_by :: "'a cache_op list \<Rightarrow> string \<Rightarrow> 'a cache_entry \<Rightarrow> bool" where
  "written_by ops key e =
     (\<exists>t0 ttl. OpSet t0 key (ce_data e) ttl \<in> set ops \<and> ce_expires e = t0 + ttl)"

section \<open>\<open>ClockManager\<close> (mobile-core.js lines 187 to 387)\<close>

text \<open>
  A record of the object store \<open>pendingActions\<close> (\<open>keyPath: 'id'\<close>), as
  \<open>storeOfflineAction\<close> writes it.  The key \<open>Date.now() + Math.random()\<close> is a number with a
  fraction.
\<close>

record offline_action =
  oa_type :: string
  oa_data :: jsval
  oa_timestamp :: int
  oa_id :: real

text \<open>
  The manager's surroundings during one call: how \<open>this.api.call(endpoint, {method: 'POST',
  body})\<close> settles, \<open>navigator.onLine\<close> when the \<open>catch\<close> block reads it, the clock readings
  \<open>new Date().toISOString()\<close> and \<open>Date.now()\<close>, \<open>Math.random()\<close>, whether
  \<open>indexedDB.open\<close> succeeds, and the properties of the global object, which is where an
  identifier is looked up that no enclosing scope declares.
\<close>

record clock_env =
  ce_api_call :: "string \<Rightarrow> jsval \<Rightarrow> jsval outcome"
  ce_onLine :: bool
  ce_isoTime :: string
  ce_now :: int
  ce_random :: real
  ce_dbOpens :: bool
  ce_globals :: "string \<rightharpoonup> jsval"

text \<open>
  The state a call can change: \<open>this.lastAction\<close>, the API client's cache (emptied by
  \<open>this.api.clearCache()\<close>) and the object store \<open>pendingActions\<close>, in key order.
\<close>

record clock_state =
  cs_lastAction :: jsval
  cs_cache :: "jsval api_cache"
  cs_pendingActions :: "offline_action list"

text \<open>
  The user-visible texts, which are Thai template literals in the source: the confirmation
  with the server's time, a text taken from the response, the fixed refusal, the notice
  that the action was stored for later, the message of a caught error, and the fixed
  error text.
\<close>

datatype message =
    DoneAt jsval
  | ServerText jsval
  | CannotRecord
  | SavedForLater
  | ErrorText js_error
  | GenericError

text \<open>
  The object a call returns; \<open>cr_data\<close> and \<open>cr_offline\<close> are \<open>JUndefined\<close> and \<open>False\<close> where
  the returned object has no such property.
\<close>

record clock_result =
  cr_success :: bool
  cr_message :: message
  cr_data :: jsval
  cr_offline :: bool

text \<open>\<open>error.message\<close>: only an error built from an empty text has an empty message.\<close>

fun has_message :: "js_error \<Rightarrow> bool" where
  "has_message (OtherError s) = (s \<noteq> [])"
| "has_message e = True"

text \<open>
  \<open>store.add\<close> on a store with key path \<open>id\<close>: the record goes to its place in key order;
  a record whose key is taken is not added.
\<close>

definition store_add :: "offline_action \<Rightarrow> offline_action list \<Rightarrow> offline_action list" where
  "store_add a st =
     (if oa_id a \<in> oa_id ` set st then st else insort_key oa_id a st)"

text \<open>
  \<open>storeOfflineAction\<close>: a failure to open the database is caught and logged, and nothing is
  stored.
\<close>

definition storeOfflineAction :: "clock_env \<Rightarrow> string \<Rightarrow> jsval \<Rightarrow> clock_state \<Rightarrow> clock_state" where
  "storeOfflineAction env type d s =
     (if ce_dbOpens env then
        s\<lparr>cs_pendingActions :=
             store_add \<lparr>oa_type = type, oa_data = d, oa_timestamp = ce_now env,
                        oa_id = real_of_int (ce_now env) + ce_random env\<rparr>
               (cs_pendingActions s)\<rparr>
      else s)"

text \<open>
  The \<open>catch (error)\<close> block of \<open>clockIn\<close> and \<open>clockOut\<close>.  It passes the identifier
  \<open>clockData\<close> to \<open>storeOfflineAction\<close>.  The \<open>const clockData\<close> of the method is declared
  inside the \<open>try\<close> block, whose scope ends with that block; the \<open>catch\<close> block is in the
  scope of its parameter \<open>error\<close>, of the method's parameters \<open>employeeName\<close> and \<open>options\<close>,
  and of the global object.  So the identifier is read from the global object, and the read
  throws a \<open>ReferenceError\<close> when the global object has no such property: the
  \<open>await this.storeOfflineAction(...)\<close> is then not reached and the method's promise rejects.
\<close>

definition clock_catch :: "clock_env \<Rightarrow> string \<Rightarrow> js_error \<Rightarrow> clock_state \<Rightarrow> clock_result outcome \<times> clock_state" where
  "clock_catch env type error s =
     (if \<not> ce_onLine env then
        (case ce_globals env ''clockData'' of
           None \<Rightarrow> (Rejected (ReferenceError ''clockData''), s)
         | Some v \<Rightarrow>
             (Resolved \<lparr>cr_success = True, cr_message = SavedForLater, cr_data = JUndefined,
                        cr_offline = True\<rparr>,
              storeOfflineAction env type v s))
      else
        (Resolved \<lparr>cr_success = False,
                   cr_message = (if has_message error then ErrorText error else GenericError),
                   cr_data = JUndefined, cr_offline = False\<rparr>, s))"

text \<open>
  The part of the \<open>try\<close> block after the API call settled with a response.  Reading
  \<open>response.success\<close> of \<open>null\<close> or \<open>undefined\<close> throws a \<open>TypeError\<close>, which the \<open>catch\<close>
  block receives.
\<close>

definition clock_done :: "clock_env \<Rightarrow> string \<Rightarrow> jsval \<Rightarrow> jsval \<Rightarrow> clock_state \<Rightarrow> clock_result outcome \<times> clock_state" where
  "clock_done env type employeeName response s =
     (if response = JNull \<or> response = JUndefined then
        clock_catch env type (OtherError ''TypeError'') s
      else if truthy (js_get response ''success'') then
        (Resolved \<lparr>cr_success = True, cr_message = DoneAt (js_get response ''time''),
                   cr_data = response, cr_offline = False\<rparr>,
         s\<lparr>cs_lastAction :=
               JObj [(''type'', JStr type), (''employee'', employeeName),
                     (''time'', js_get response ''timestamp''),
                     (''displayTime'', js_get response ''time'')],
             cs_cache := clearCache (cs_cache s)\<rparr>)
      else
        (Resolved \<lparr>cr_success = False,
                   cr_message = (if truthy (js_get response ''msg'')
                                 then ServerText (js_get response ''msg'') else CannotRecord),
                   cr_data = JUndefined, cr_offline = False\<rparr>, s))"

text \<open>
  \<open>options\<close> defaults to \<open>{}\<close> when the argument is \<open>undefined\<close>; reading a property of
  \<open>null\<close> throws a \<open>TypeError\<close> inside the \<open>try\<close> block.
\<close>

definition clockIn :: "clock_env \<Rightarrow> jsval \<Rightarrow> jsval \<Rightarrow> clock_state \<Rightarrow> clock_result outcome \<times> clock_state" where
  "clockIn env employeeName options s =
     (if options = JNull then clock_catch env ''clockin'' (OtherError ''TypeError'') s
      else
        let opts = (if options = JUndefined then JObj [] else options);
            clockData =
              JObj [(''employee'', employeeName),
                    (''userinfo'', js_or (js_get opts ''note'') (JStr [])),
                    (''lat'', js_get opts ''latitude''),
                    (''lon'', js_get opts ''longitude''),
                    (''line_name'', js_get opts ''lineName''),
                    (''line_picture'', js_get opts ''linePicture''),
                    (''client_time'', JStr (ce_isoTime env))]
        in case ce_api_call env ''/clockin'' clockData of
             Resolved response \<Rightarrow> clock_done env ''clockin'' employeeName response s
           | Rejected error \<Rightarrow> clock_catch env ''clockin'' error s)"

definition clockOut :: "clock_env \<Rightarrow> jsval \<Rightarrow> jsval \<Rightarrow> clock_state \<Rightarrow> clock_result outcome \<times> clock_state" where
  "clockOut env employeeName options s =
     (if options = JNull then clock_catch env ''clockout'' (OtherError ''TypeError'') s
      else
        let opts = (if options = JUndefined then JObj [] else options);
            clockData =
              JObj [(''employee'', employeeName),
                    (''lat'', js_get opts ''latitude''),
                    (''lon'', js_get opts ''longitude''),
                    (''line_name'', js_get opts ''lineName''),
                    (''line_picture'', js_get opts ''linePicture''),
                    (''client_time'', JStr (ce_isoTime env))]
        in case ce_api_call env ''/clockout'' clockData of
             Resolved response \<Rightarrow> clock_done env ''clockout'' employeeName response s
           | Rejected error \<Rightarrow> clock_catch env ''clockout'' error s)"

text \<open>
  A device without connectivity: every API call is rejected, \<open>navigator.onLine\<close> is false,
  the database opens, and the global object has the properties the scripts of the
  repository define on it, of which none is named \<open>clockData\<close>.
\<close>

definition offline_env :: clock_env where
  "offline_env =
     \<lparr>ce_api_call = (\<lambda>endpoint body. Rejected FetchFailed), ce_onLine = False,
      ce_isoTime = ''2026-11-03T08:00:00.000Z'', ce_now = 1793692800000, ce_random = 1/2,
      ce_dbOpens = True,
      ce_globals = [''scripturl'' \<mapsto> JStr ''/api'', ''profile'' \<mapsto> JNull]\<rparr>"

definition fresh_state :: clock_state where
  "fresh_state = \<lparr>cs_lastAction = JNull, cs_cache = Map.empty, cs_pendingActions = []\<rparr>"

section \<open>The application-level drain (mobile-app.js lines 164 to 219, 565 to 625, 778 to 784)\<close>

text \<open>The toasts the drain and the connectivity handlers show, with the counts they carry.\<close>

datatype toast =
    SyncedToast nat
  | NotSyncedToast nat
  | ConnectedToast
  | DisconnectedToast

text \<open>The fields of \<open>MobileTimeTrackerApp\<close> that the drain reads and writes, and the toasts.\<close>

record app =
  syncInProgress :: bool
  isOnline :: bool
  toasts :: "toast list"

text \<open>
  A drain pass in flight is \<open>syncOfflineData\<close> suspended at one of its \<open>await\<close>s: the opening
  of the database (line 573), the reading of the store (line 576), the replay of an action
  through \<open>this.clock.clockIn\<close> or \<open>this.clock.clockOut\<close> (lines 593, 595) and the removal of
  a replayed action (line 600).  The last two carry the action, the actions still to come,
  \<open>syncedCount\<close> and \<open>failedCount\<close>.
\<close>

datatype pass =
    AwaitOpen
  | AwaitGetAll
  | AwaitReplay offline_action "offline_action list" nat nat
  | AwaitRemove offline_action "offline_action list" nat nat

text \<open>
  How the awaited promise settles when a pass is resumed; the field for the \<open>await\<close> the pass
  is suspended at is the one that counts.  The replay's result is the object that
  \<open>ClockManager.clockIn\<close> or \<open>clockOut\<close> returns.
\<close>

record step_env =
  on_open :: "unit outcome"
  on_getAll :: "offline_action list outcome"
  on_replay :: "clock_result outcome"
  on_remove :: "unit outcome"

text \<open>
  The call of \<open>syncOfflineData\<close> up to its first \<open>await\<close>: the guard, the flag, and the pass
  that is now in flight; \<open>None\<close> when the call returned at the guard.
\<close>

definition syncOfflineData :: "app \<Rightarrow> app \<times> pass option" where
  "syncOfflineData a =
     (if syncInProgress a \<or> \<not> isOnline a then (a, None)
      else (a\<lparr>syncInProgress := True\<rparr>, Some AwaitOpen))"

text \<open>
  The end of the \<open>try\<close> block after the loop, and the \<open>finally\<close> block.  The toasts of
  \<open>MobileUI\<close> are taken to return; were one to throw, the outer \<open>catch\<close> and the same
  \<open>finally\<close> would follow.
\<close>

definition finish :: "app \<Rightarrow> nat \<Rightarrow> nat \<Rightarrow> app \<times> pass option" where
  "finish a syncedCount failedCount =
     (let a1 = (if syncedCount > 0 then a\<lparr>toasts := toasts a @ [SyncedToast syncedCount]\<rparr>
                else a);
          a2 = (if failedCount > 0 then a1\<lparr>toasts := toasts a1 @ [NotSyncedToast failedCount]\<rparr>
                else a1)
      in (a2\<lparr>syncInProgress := False\<rparr>, None))"

text \<open>
  The \<open>for\<close> loop from the actions still to come, run to its next \<open>await\<close> or to its end.  An
  action whose type is neither \<open>clockin\<close> nor \<open>clockout\<close> leaves \<open>result\<close> undefined and is
  counted as failed; an action without data makes \<open>action.data.employee\<close> throw, which the
  inner \<open>catch\<close> counts as failed.
\<close>

fun replay_from :: "app \<Rightarrow> offline_action list \<Rightarrow> nat \<Rightarrow> nat \<Rightarrow> app \<times> pass option" where
  "replay_from a [] syncedCount failedCount = finish a syncedCount failedCount"
| "replay_from a (x # xs) syncedCount failedCount =
     (if oa_type x = ''clockin'' \<or> oa_type x = ''clockout'' then
        (if oa_data x = JNull \<or> oa_data x = JUndefined then
           replay_from a xs syncedCount (Suc failedCount)
         else (a, Some (AwaitReplay x xs syncedCount failedCount)))
      else replay_from a xs syncedCount (Suc failedCount))"

text \<open>
  A suspended pass resumed with the settlement of its promise, run to the next \<open>await\<close>
  (\<open>Some\<close>) or to the end of \<open>syncOfflineData\<close> (\<open>None\<close>).  A rejection outside the loop goes
  to the outer \<open>catch\<close> and then to \<open>finally\<close>; a rejection inside the loop goes to the inner
  \<open>catch\<close>.
\<close>

fun resume :: "step_env \<Rightarrow> pass \<Rightarrow> app \<Rightarrow> app \<times> pass option" where
  "resume env AwaitOpen a =
     (case on_open env of
        Resolved db \<Rightarrow> (a, Some AwaitGetAll)
      | Rejected error \<Rightarrow> (a\<lparr>syncInProgress := False\<rparr>, None))"
| "resume env AwaitGetAll a =
     (case on_getAll env of
        Resolved pendingActions \<Rightarrow>
          if length pendingActions = 0 then (a\<lparr>syncInProgress := False\<rparr>, None)
          else replay_from a pendingActions 0 0
      | Rejected error \<Rightarrow> (a\<lparr>syncInProgress := False\<rparr>, None))"
| "resume env (AwaitReplay x xs syncedCount failedCount) a =
     (case on_replay env of
        Resolved result \<Rightarrow>
          if cr_success result \<and> \<not> cr_offline result then
            (a, Some (AwaitRemove x xs syncedCount failedCount))
          else replay_from a xs syncedCount (Suc failedCount)
      | Rejected error \<Rightarrow> replay_from a xs syncedCount (Suc failedCount))"
| "resume env (AwaitRemove x xs syncedCount failedCount) a =
     (case on_remove env of
        Resolved u \<Rightarrow> replay_from a xs (Suc syncedCount) failedCount
      | Rejected error \<Rightarrow> replay_from a xs syncedCount (Suc failedCount))"

text \<open>
  One invocation followed to its end: the promises the pass awaits settle one after the
  other as the sequence \<open>envs\<close> says; \<open>drive envs n\<close> is the state after \<open>n\<close> of them.
\<close>

fun drive :: "(nat \<Rightarrow> step_env) \<Rightarrow> nat \<Rightarrow> app \<times> pass option \<Rightarrow> app \<times> pass option" where
  "drive envs 0 c = c"
| "drive envs (Suc n) (a, None) = (a, None)"
| "drive envs (Suc n) (a, Some p) = drive (\<lambda>i. envs (Suc i)) n (resume (envs 0) p a)"

subsection \<open>The application with its passes in flight\<close>

text \<open>
  The event loop interleaves the handlers that call \<open>syncOfflineData\<close> with the resumption
  of the passes in flight.  The handlers: the \<open>online\<close> and \<open>offline\<close> listeners, the
  \<open>visibilitychange\<close> listener (the document being visible), the five-minute timer of
  \<open>setupPeriodicSync\<close> and \<open>forceSync\<close>.
\<close>

record system =
  sy_app :: app
  sy_running :: "pass list"

datatype event =
    WentOnline
  | WentOffline
  | BecameVisible
  | TimerTick
  | ForceSync
  | Resume nat step_env

text \<open>A handler calling \<open>this.syncOfflineData()\<close>.\<close>

definition call_sync :: "system \<Rightarrow> system" where
  "call_sync s =
     (case syncOfflineData (sy_app s) of
        (a, None) \<Rightarrow> s\<lparr>sy_app := a\<rparr>
      | (a, Some p) \<Rightarrow> s\<lparr>sy_app := a, sy_running := sy_running s @ [p]\<rparr>)"

definition drop_nth :: "nat \<Rightarrow> 'a list \<Rightarrow> 'a list" where
  "drop_nth i xs = take i xs @ drop (Suc i) xs"

fun step :: "system \<Rightarrow> event \<Rightarrow> system" where
  "step s WentOnline =
     call_sync (s\<lparr>sy_app := (sy_app s)\<lparr>isOnline := True,
                                        toasts := toasts (sy_app s) @ [ConnectedToast]\<rparr>\<rparr>)"
| "step s WentOffline =
     s\<lparr>sy_app := (sy_app s)\<lparr>isOnline := False,
                             toasts := toasts (sy_app s) @ [DisconnectedToast]\<rparr>\<rparr>"
| "step s BecameVisible = (if isOnline (sy_app s) then call_sync s else s)"
| "step s TimerTick =
     (if isOnline (sy_app s) \<and> \<not> syncInProgress (sy_app s) then call_sync s else s)"
| "step s ForceSync =
     (if isOnline (sy_app s) then call_sync s
      else s\<lparr>sy_app := (sy_app s)\<lparr>toasts := toasts (sy_app s) @ [DisconnectedToast]\<rparr>\<rparr>)"
| "step s (Resume i env) =
     (if i < length (sy_running s) then
        (case resume env (sy_running s ! i) (sy_app s) of
           (a, None) \<Rightarrow> s\<lparr>sy_app := a, sy_running := drop_nth i (sy_running s)\<rparr>
         | (a, Some p) \<Rightarrow> s\<lparr>sy_app := a, sy_running := (sy_running s)[i := p]\<rparr>)
      else s)"

text \<open>The application as its constructor leaves it; \<open>online\<close> is \<open>navigator.onLine\<close> then.\<close>

definition initial :: "bool \<Rightarrow> system" where
  "initial online =
     \<lparr>sy_app = \<lparr>syncInProgress = False, isOnline = online, toasts = []\<rparr>, sy_running = []\<rparr>"

definition run :: "bool \<Rightarrow> event list \<Rightarrow> system" where
  "run online evs = foldl step (initial online) evs"

text \<open>Sample settlements: everything resolves, or the database does not open.\<close>

definition sample_action :: offline_action where
  "sample_action =
     \<lparr>oa_type = ''clockin'', oa_data = JObj [(''employee'', JStr ''Somchai'')],
      oa_timestamp = 1793692800000, oa_id = 1793692800000 + 1/2\<rparr>"

definition all_resolve :: step_env where
  "all_resolve =
     \<lparr>on_open = Resolved (), on_getAll = Resolved [sample_action],
      on_replay = Resolved \<lparr>cr_success = True, cr_message = DoneAt (JStr ''08:00''),
                            cr_data = JObj [], cr_offline = False\<rparr>,
      on_remove = Resolved ()\<rparr>"

definition open_fails :: step_env where
  "open_fails = all_resolve\<lparr>on_open := Rejected StorageError\<rparr>"

text \<open>An upper bound on the \<open>await\<close>s a pass inside the loop still has before it.\<close>

fun awaits_left :: "pass \<Rightarrow> nat" where
  "awaits_left AwaitOpen = 0"
| "awaits_left AwaitGetAll = 0"
| "awaits_left (AwaitReplay x xs syncedCount failedCount) = 2 * length xs + 2"
| "awaits_left (AwaitRemove x xs syncedCount failedCount) = 2 * length xs + 1"

text \<open>
  No pass in flight without the flag, no flag without a pass in flight, and never two
  passes.
\<close>

definition one_pass :: "system \<Rightarrow> bool" where
  "one_pass s =
     (length (sy_running s) \<le> 1 \<and> (syncInProgress (sy_app s) = (sy_running s \<noteq> [])))"

section \<open>Cache keys and the page script's drain (mobile-core.js line 15; main.js lines 558 to 611, 1358 to 1404)\<close>

subsection \<open>Cache keys\<close>


text \<open>\<open>options.method || 'GET'\<close>; \<open>None\<close> is an option object without a method.\<close>

definition method_or_GET :: "string option \<Rightarrow> string" where
  "method_or_GET m = (case m of None \<Rightarrow> ''GET'' | Some s \<Rightarrow> if s = [] then ''GET'' else s)"

text \<open>
  \<open>optimizedAjax\<close> builds its key as
  \<open>`${options.method || 'GET'}:${options.url}:${JSON.stringify(options.data || {})}`\<close>.
\<close>

definition ajax_cacheKey :: "(jsval \<Rightarrow> string) \<Rightarrow> string option \<Rightarrow> string \<Rightarrow> jsval \<Rightarrow> string" where
  "ajax_cacheKey stringify m url d =
     method_or_GET m @ '':'' @ url @ '':'' @ stringify (js_or d (JObj []))"

subsection \<open>The drain of the page script\<close>

text \<open>An entry of \<open>mobilePerf.apiCache\<close>.\<close>

record ajax_entry =
  ae_data :: jsval
  ae_timestamp :: int

text \<open>
  The cache test at the head of \<open>optimizedAjax\<close>: an entry younger than 30 seconds resolves
  the promise at once and no request is made.
\<close>

definition ajax_cached :: "(jsval \<Rightarrow> string) \<Rightarrow> int \<Rightarrow> (string \<rightharpoonup> ajax_entry) \<Rightarrow> string option \<Rightarrow> string \<Rightarrow> jsval \<Rightarrow> jsval option" where
  "ajax_cached stringify now cache m url d =
     (case cache (ajax_cacheKey stringify m url d) of
        None \<Rightarrow> None
      | Some cached \<Rightarrow> if now - ae_timestamp cached < 30000 then Some (ae_data cached) else None)"

text \<open>
  A pass of \<open>syncOfflineActions\<close> in flight: the array \<open>offlineActions\<close> it read, and for each
  action whether its promise was resolved from the cache (the others wait for \<open>$.ajax\<close>).
\<close>

record legacy_pass =
  lp_offlineActions :: "offline_action list"
  lp_fromCache :: "bool list"

text \<open>
  The page: \<open>navigator.onLine\<close>, the array stored under \<open>offline_actions\<close> in \<open>localStorage\<close>,
  \<open>mobilePerf.apiCache\<close>, the POST requests handed to \<open>$.ajax\<close> so far (URL and data), the
  passes in flight and the number of success toasts shown.
\<close>

record legacy =
  lg_onLine :: bool
  lg_offline_actions :: "offline_action list"
  lg_apiCache :: "string \<rightharpoonup> ajax_entry"
  lg_sent :: "(string \<times> jsval) list"
  lg_running :: "legacy_pass list"
  lg_toasts :: "nat list"

definition scripturl :: string where
  "scripturl = ''/api''"

definition action_url :: "offline_action \<Rightarrow> string" where
  "action_url action =
     scripturl @ (if oa_type action = ''clockin'' then ''/clockin'' else ''/clockout'')"

text \<open>
  \<open>syncOfflineActions\<close> up to \<open>Promise.allSettled(promises)\<close>: every action that the cache does
  not answer is sent, and the pass is in flight until the promises have settled.
\<close>

definition syncOfflineActions :: "(jsval \<Rightarrow> string) \<Rightarrow> int \<Rightarrow> legacy \<Rightarrow> legacy" where
  "syncOfflineActions stringify now s =
     (if \<not> lg_onLine s then s
      else if length (lg_offline_actions s) = 0 then s
      else
        let offlineActions = lg_offline_actions s;
            fromCache = map (\<lambda>action. ajax_cached stringify now (lg_apiCache s) (Some ''POST'')
                                          (action_url action) (oa_data action) \<noteq> None)
                          offlineActions;
            requests = map (\<lambda>action. (action_url action, oa_data action))
                         (filter (\<lambda>action. ajax_cached stringify now (lg_apiCache s) (Some ''POST'')
                                               (action_url action) (oa_data action) = None)
                            offlineActions)
        in s\<lparr>lg_sent := lg_sent s @ requests,
              lg_running := lg_running s @
                [\<lparr>lp_offlineActions = offlineActions, lp_fromCache = fromCache\<rparr>]\<rparr>)"

text \<open>
  The \<open>success\<close> handler that \<open>optimizedAjax\<close> installs: a response that is an object is
  stored in the cache under the request's key, with the time of its arrival.
\<close>

definition cache_success :: "(jsval \<Rightarrow> string) \<Rightarrow> offline_action \<Rightarrow> jsval outcome \<times> int \<Rightarrow> (string \<rightharpoonup> ajax_entry) \<Rightarrow> (string \<rightharpoonup> ajax_entry)" where
  "cache_success stringify action settled cache =
     (case settled of
        (Resolved (JObj kvs), now) \<Rightarrow>
          cache(ajax_cacheKey stringify (Some ''POST'') (action_url action) (oa_data action) \<mapsto>
                  \<lparr>ae_data = JObj kvs, ae_timestamp = now\<rparr>)
      | (Resolved (JArr xs), now) \<Rightarrow>
          cache(ajax_cacheKey stringify (Some ''POST'') (action_url action) (oa_data action) \<mapsto>
                  \<lparr>ae_data = JArr xs, ae_timestamp = now\<rparr>)
      | _ \<Rightarrow> cache)"

fun cache_all :: "(jsval \<Rightarrow> string) \<Rightarrow> (offline_action \<times> bool \<times> jsval outcome \<times> int) list \<Rightarrow> (string \<rightharpoonup> ajax_entry) \<Rightarrow> (string \<rightharpoonup> ajax_entry)" where
  "cache_all stringify [] cache = cache"
| "cache_all stringify ((action, fromCache, settled) # rest) cache =
     cache_all stringify rest
       (if fromCache then cache else cache_success stringify action settled cache)"

text \<open>Whether the promise of an action is fulfilled with the action's id.\<close>

fun synced :: "bool \<times> jsval outcome \<times> int \<Rightarrow> bool" where
  "synced (fromCache, Resolved d, now) = True"
| "synced (fromCache, Rejected e, now) = fromCache"

text \<open>
  The callback of \<open>Promise.allSettled\<close> for the first pass in flight.  \<open>settled\<close> gives, for
  each action of the pass, how its request settled for good (after the retries of the
  \<open>error\<close> handler) and when; an action answered from the cache made no request and counts
  as fulfilled.  The synced ids are the truthy ids of the fulfilled actions; with at least
  one of them, the actions of the pass that are left are written back to \<open>localStorage\<close>
  and a toast shows the count.
\<close>

definition allSettled :: "(jsval \<Rightarrow> string) \<Rightarrow> (jsval outcome \<times> int) list \<Rightarrow> legacy \<Rightarrow> legacy" where
  "allSettled stringify settled s =
     (case lg_running s of
        [] \<Rightarrow> s
      | p # ps \<Rightarrow>
          let results = zip (lp_offlineActions p) (zip (lp_fromCache p) settled);
              syncedIds = map (\<lambda>(action, r). oa_id action)
                            (filter (\<lambda>(action, r). synced r \<and> oa_id action \<noteq> 0) results);
              s1 = s\<lparr>lg_running := ps,
                     lg_apiCache := cache_all stringify results (lg_apiCache s)\<rparr>
          in if length syncedIds > 0 then
               s1\<lparr>lg_offline_actions :=
                     filter (\<lambda>action. oa_id action \<notin> set syncedIds) (lp_offlineActions p),
                   lg_toasts := lg_toasts s1 @ [length syncedIds]\<rparr>
             else s1)"

text \<open>A page that is online with one stored action, and a serialiser for it.\<close>

definition sample_page :: legacy where
  "sample_page =
     \<lparr>lg_onLine = True, lg_offline_actions = [sample_action], lg_apiCache = Map.empty,
      lg_sent = [], lg_running = [], lg_toasts = []\<rparr>"

definition sample_stringify :: "jsval \<Rightarrow> string" where
  "sample_stringify v = (case v of JStr s \<Rightarrow> s | JObj [] \<Rightarrow> ''{}'' | _ \<Rightarrow> ''{...}'')"

section \<open>Proofs: the service worker\<close>

subsection \<open>Cache storage\<close>


lemma caches_match_put_other:
  "u' \<noteq> u \<Longrightarrow> caches_match (cache_put name u r cs) u' = caches_match cs u'"
proof (induction cs)
  case Nil
  then show ?case by simp
next
  case (Cons nc cs)
  obtain n c where nc: "nc = (n, c)" by (cases nc)
  with Cons show ?case by (simp add: update_conv' split: option.splits)
qed


subsection \<open>The offline response synthesizer\<close>

text \<open>
  C4 as stated fails for the configuration identifier: the body synthesized for
  \<open>/api/getLiffId\<close> carries no \<open>offline\<close> marker (and reports success with a fixed
  identifier instead of an empty default).
\<close>

theorem offlineData_getLiffId_counterexample:
  "\<not> (js_get (offlineData ''1/1/2568'' ''/api/getLiffId'') ''offline'' = JBool True)"
  by (simp add: offlineData_def)

text \<open>
  C4 (amended): every synthesized response has status 200 and the serialised
  \<open>offlineData\<close> as its body.  For a path containing \<open>/employees\<close> the data is a failure
  body with \<open>offline: true\<close> and an empty roster; otherwise, for a path containing
  \<open>/dashboard\<close>, a failure body with \<open>offline: true\<close> and zero counters for today's date;
  otherwise, for a path containing \<open>/getLiffId\<close>, the success body with the fixed identifier
  and no offline marker; for every other path the generic failure envelope of a failure
  flag and the no-connectivity message.
\<close>

theorem createOfflineAPIResponse_shape:
  "rs_status (createOfflineAPIResponse stringify today p) = 200 \<and>
   rs_body (createOfflineAPIResponse stringify today p) = stringify (offlineData today p) \<and>
   (str_includes p ''/employees'' \<longrightarrow>
      js_get (offlineData today p) ''success'' = JBool False \<and>
      js_get (offlineData today p) ''msg'' = JStr msg_no_internet \<and>
      js_get (offlineData today p) ''offline'' = JBool True \<and>
      js_get (offlineData today p) ''employees'' = JArr []) \<and>
   (\<not> str_includes p ''/employees'' \<and> str_includes p ''/dashboard'' \<longrightarrow>
      js_get (offlineData today p) ''success'' = JBool False \<and>
      js_get (offlineData today p) ''msg'' = JStr msg_no_internet \<and>
      js_get (offlineData today p) ''offline'' = JBool True \<and>
      js_get (offlineData today p) ''today'' =
        JObj [(''total_employees'', JNum 0), (''checked_in'', JNum 0),
              (''not_checked_out'', JNum 0), (''date'', JStr today)]) \<and>
   (\<not> str_includes p ''/employees'' \<and> \<not> str_includes p ''/dashboard'' \<and>
    str_includes p ''/getLiffId'' \<longrightarrow>
      offlineData today p =
        JObj [(''success'', JBool True), (''liffId'', JStr ''2001032478-VR5Akj0k'')]) \<and>
   (\<not> str_includes p ''/employees'' \<and> \<not> str_includes p ''/dashboard'' \<and>
    \<not> str_includes p ''/getLiffId'' \<longrightarrow>
      offlineData today p =
        JObj [(''success'', JBool False), (''msg'', JStr msg_no_internet)])"
  by (simp add: createOfflineAPIResponse_def offlineData_def)

theorem createOfflineAPIResponse_shape_witness:
  "str_includes ''/api/mobile/employees'' ''/employees'' \<and>
   js_get (offlineData ''1/1/2568'' ''/api/mobile/employees'') ''offline'' = JBool True \<and>
   js_get (offlineData ''1/1/2568'' ''/api/mobile/employees'') ''employees'' = JArr [] \<and>
   \<not> str_includes ''/api/mobile/dashboard'' ''/employees'' \<and>
   str_includes ''/api/mobile/dashboard'' ''/dashboard'' \<and>
   js_get (offlineData ''1/1/2568'' ''/api/mobile/dashboard'') ''offline'' = JBool True \<and>
   \<not> str_includes ''/api/getLiffId'' ''/employees'' \<and>
   \<not> str_includes ''/api/getLiffId'' ''/dashboard'' \<and>
   str_includes ''/api/getLiffId'' ''/getLiffId'' \<and>
   offlineData ''1/1/2568'' ''/api/getLiffId'' =
     JObj [(''success'', JBool True), (''liffId'', JStr ''2001032478-VR5Akj0k'')] \<and>
   \<not> str_includes ''/api/x'' ''/employees'' \<and> \<not> str_includes ''/api/x'' ''/dashboard'' \<and>
   \<not> str_includes ''/api/x'' ''/getLiffId'' \<and>
   offlineData ''1/1/2568'' ''/api/x'' =
     JObj [(''success'', JBool False), (''msg'', JStr msg_no_internet)]"
proof -
  have a: "str_includes ''/api/mobile/employees'' ''/employees''" by simp
  have b: "\<not> str_includes ''/api/mobile/dashboard'' ''/employees''"
          "str_includes ''/api/mobile/dashboard'' ''/dashboard''" by simp_all
  have c: "\<not> str_includes ''/api/getLiffId'' ''/employees''"
          "\<not> str_includes ''/api/getLiffId'' ''/dashboard''"
          "str_includes ''/api/getLiffId'' ''/getLiffId''" by simp_all
  have d: "\<not> str_includes ''/api/x'' ''/employees''" "\<not> str_includes ''/api/x'' ''/dashboard''"
          "\<not> str_includes ''/api/x'' ''/getLiffId''" by simp_all
  note t = createOfflineAPIResponse_shape [where stringify = "\<lambda>v. []" and today = "''1/1/2568''"]
  from a t [where p = "''/api/mobile/employees''"]
  have 1: "js_get (offlineData ''1/1/2568'' ''/api/mobile/employees'') ''offline'' = JBool True"
          "js_get (offlineData ''1/1/2568'' ''/api/mobile/employees'') ''employees'' = JArr []"
    by blast+
  from b t [where p = "''/api/mobile/dashboard''"]
  have 2: "js_get (offlineData ''1/1/2568'' ''/api/mobile/dashboard'') ''offline'' = JBool True"
    by blast
  from c t [where p = "''/api/getLiffId''"]
  have 3: "offlineData ''1/1/2568'' ''/api/getLiffId'' =
     JObj [(''success'', JBool True), (''liffId'', JStr ''2001032478-VR5Akj0k'')]"
    by blast
  from d t [where p = "''/api/x''"]
  have 4: "offlineData ''1/1/2568'' ''/api/x'' =
     JObj [(''success'', JBool False), (''msg'', JStr msg_no_internet)]"
    by blast
  from a b c d 1 2 3 4 show ?thesis by blast
qed

subsection \<open>Cache-first\<close>



subsection \<open>Network-first with fallback\<close>




subsection \<open>Classification\<close>


text \<open>
  The network-first branch of \<open>handleRequest\<close> is never taken: a path that ends in
  \<open>.html\<close> or is the root path is a static resource already.
\<close>

lemma spec_classify_never_NetworkFirst:
  "spec_classify own origin method path \<noteq> NetworkFirst"
  by (simp add: spec_classify_def spec_static_asset_def)



section \<open>Proofs: background sync in the service worker\<close>

lemma replay_loop_sent:
  "dr_sent (replay_loop env endpoint note i xs d) =
     dr_sent d @ map (\<lambda>x. (endpoint, pd_data x)) xs"
proof (induction xs arbitrary: i d)
  case Nil
  then show ?case by simp
next
  case (Cons x xs)
  show ?case
    by (simp add: Cons.IH Let_def showNotification_def split: outcome.splits)
qed

lemma replay_loop_nextKey:
  "st_nextKey (dr_store (replay_loop env endpoint note i xs d)) = st_nextKey (dr_store d)"
proof (induction xs arbitrary: i d)
  case Nil
  then show ?case by simp
next
  case (Cons x xs)
  show ?case
    by (simp add: Cons.IH Let_def showNotification_def idb_delete_def split: outcome.splits)
qed

text \<open>
  With removals that succeed, the loop deletes from the store exactly the keys of the
  entries whose replay succeeded.
\<close>

lemma replay_loop_store:
  assumes "\<forall>j. se_remove env j"
  shows "st_records (dr_store (replay_loop env endpoint note i xs d)) =
     filter (\<lambda>p. pd_id p \<notin> pd_id ` {x \<in> set xs. x \<notin> set (not_synced env endpoint i xs)})
       (st_records (dr_store d)) \<or> \<not> distinct (map pd_id xs)"
proof (induction xs arbitrary: i d)
  case Nil
  then show ?case by simp
next
  case (Cons x xs)
  show ?case
  proof (cases "distinct (map pd_id (x # xs))")
    case False
    then show ?thesis by simp
  next
    case True
    then have dx: "distinct (map pd_id xs)" and nx: "pd_id x \<notin> pd_id ` set xs" by auto
    have sub: "set (not_synced env endpoint j ys) \<subseteq> set ys" for j ys
      by (induction ys arbitrary: j) auto
    from nx have xnot: "x \<notin> set xs" by auto
    with sub have xnot': "x \<notin> set (not_synced env endpoint (Suc i) xs)" by blast
    show ?thesis
    proof (cases "replay_ok env endpoint i x")
      case True
      let ?d1 = "showNotification env note
          (d\<lparr>dr_sent := dr_sent d @ [(endpoint, pd_data x)],
             dr_store := idb_delete (pd_id x) (dr_store d)\<rparr>)"
      from True assms have step: "replay_loop env endpoint note i (x # xs) d =
          replay_loop env endpoint note (Suc i) xs ?d1"
        by (auto simp: replay_ok_def Let_def split: outcome.splits)
      have st: "st_records (dr_store ?d1) = filter (\<lambda>p. pd_id p \<noteq> pd_id x) (st_records (dr_store d))"
        by (simp add: showNotification_def idb_delete_def)
      from Cons.IH [of "Suc i" ?d1] dx
      have "st_records (dr_store (replay_loop env endpoint note (Suc i) xs ?d1)) =
          filter (\<lambda>p. pd_id p \<notin> pd_id ` {y \<in> set xs. y \<notin> set (not_synced env endpoint (Suc i) xs)})
            (st_records (dr_store ?d1))"
        by simp
      also have "\<dots> = filter (\<lambda>p. pd_id p \<notin> pd_id ` {y \<in> set xs. y \<notin> set (not_synced env endpoint (Suc i) xs)}
            \<and> pd_id p \<noteq> pd_id x) (st_records (dr_store d))"
        by (simp add: st conj_commute)
      also have "\<dots> = filter (\<lambda>p. pd_id p \<notin> pd_id ` {y \<in> set (x # xs).
            y \<notin> set (not_synced env endpoint i (x # xs))}) (st_records (dr_store d))"
        using True xnot' by (intro filter_cong refl) auto
      finally show ?thesis using step by simp
    next
      case False
      let ?d1 = "d\<lparr>dr_sent := dr_sent d @ [(endpoint, pd_data x)]\<rparr>"
      from False have step: "replay_loop env endpoint note i (x # xs) d =
          replay_loop env endpoint note (Suc i) xs ?d1"
        by (auto simp: replay_ok_def Let_def split: outcome.splits)
      from Cons.IH [of "Suc i" ?d1] dx
      have "st_records (dr_store (replay_loop env endpoint note (Suc i) xs ?d1)) =
          filter (\<lambda>p. pd_id p \<notin> pd_id ` {y \<in> set xs. y \<notin> set (not_synced env endpoint (Suc i) xs)})
            (st_records (dr_store d))"
        by simp
      also have "\<dots> = filter (\<lambda>p. pd_id p \<notin> pd_id ` {y \<in> set (x # xs).
            y \<notin> set (not_synced env endpoint i (x # xs))}) (st_records (dr_store d))"
        using False xnot by (intro filter_cong refl) auto
      finally show ?thesis using step by simp
    qed
  qed
qed

lemma not_synced_subset: "set (not_synced env endpoint i xs) \<subseteq> set xs"
  by (induction xs arbitrary: i) auto

lemma filter_not_synced:
  "distinct (map pd_id xs) \<Longrightarrow>
   filter (\<lambda>p. pd_id p \<notin> pd_id ` {x \<in> set xs. x \<notin> set (not_synced env endpoint i xs)}) xs =
     not_synced env endpoint i xs"
proof -
  assume dist: "distinct (map pd_id xs)"
  then have inj: "inj_on pd_id (set xs)" and dxs: "distinct xs"
    by (auto simp: distinct_map)
  have key: "\<And>p. p \<in> set xs \<Longrightarrow>
      (pd_id p \<notin> pd_id ` {x \<in> set xs. x \<notin> set (not_synced env endpoint i xs)}) =
      (p \<in> set (not_synced env endpoint i xs))"
    using inj by (auto dest: inj_onD)
  have "filter (\<lambda>p. pd_id p \<notin> pd_id ` {x \<in> set xs. x \<notin> set (not_synced env endpoint i xs)}) xs =
      filter (\<lambda>p. p \<in> set (not_synced env endpoint i xs)) xs"
    using key by (intro filter_cong refl) blast
  also have "\<dots> = not_synced env endpoint i xs"
    using dxs
  proof (induction xs arbitrary: i)
    case Nil
    then show ?case by simp
  next
    case (Cons x xs)
    from Cons.prems have xn: "x \<notin> set xs" and d: "distinct xs" by auto
    from xn not_synced_subset have xn': "x \<notin> set (not_synced env endpoint (Suc i) xs)"
      by blast
    have "filter (\<lambda>p. p \<in> set (not_synced env endpoint i (x # xs))) xs =
        filter (\<lambda>p. p \<in> set (not_synced env endpoint (Suc i) xs)) xs"
      using xn by (intro filter_cong refl) auto
    with Cons.IH [OF d, of "Suc i"] xn' show ?case by auto
  qed
  finally show ?thesis .
qed

lemma idb_add_fresh:
  assumes "\<forall>p \<in> set (st_records st). pd_id p < st_nextKey st"
      and "distinct (map pd_id (st_records st))"
  shows "(\<forall>p \<in> set (st_records (idb_add st d)). pd_id p < st_nextKey (idb_add st d)) \<and>
     distinct (map pd_id (st_records (idb_add st d)))"
  using assms by (auto simp: idb_add_def less_Suc_eq)

lemma enqueue_all_records:
  assumes "\<forall>p \<in> set (st_records st). pd_id p < st_nextKey st"
      and "distinct (map pd_id (st_records st))"
  shows "map pd_data (st_records (foldl idb_add st ds)) = map pd_data (st_records st) @ ds \<and>
     distinct (map pd_id (st_records (foldl idb_add st ds)))"
  using assms
proof (induction ds arbitrary: st)
  case Nil
  then show ?case by simp
next
  case (Cons d ds)
  from idb_add_fresh [OF Cons.prems]
  have "\<forall>p \<in> set (st_records (idb_add st d)). pd_id p < st_nextKey (idb_add st d)"
    and "distinct (map pd_id (st_records (idb_add st d)))"
    by blast+
  from Cons.IH [OF this] show ?case by (simp add: idb_add_def)
qed

lemma enqueue_all_data: "map pd_data (st_records (enqueue_all ds)) = ds"
  using enqueue_all_records [of idb_empty ds] by (simp add: enqueue_all_def idb_empty_def)

lemma enqueue_all_distinct: "distinct (map pd_id (st_records (enqueue_all ds)))"
  using enqueue_all_records [of idb_empty ds] by (simp add: enqueue_all_def idb_empty_def)

lemma not_synced_nth:
  "distinct xs \<Longrightarrow> k < length xs \<Longrightarrow>
   (xs ! k \<in> set (not_synced env endpoint i xs)) = (\<not> replay_ok env endpoint (i + k) (xs ! k))"
proof (induction xs arbitrary: i k)
  case Nil
  then show ?case by simp
next
  case (Cons x xs)
  from Cons.prems have xn: "x \<notin> set xs" and d: "distinct xs" by auto
  from xn not_synced_subset have xn': "x \<notin> set (not_synced env endpoint (Suc i) xs)"
    by blast
  show ?case
  proof (cases k)
    case 0
    with xn' show ?thesis by simp
  next
    case (Suc k')
    with Cons.prems have k': "k' < length xs" by simp
    then have "xs ! k' \<in> set xs" by simp
    with xn have ne: "xs ! k' \<noteq> x" by auto
    from Cons.IH [OF d k', of "Suc i"] ne Suc show ?thesis by simp
  qed
qed

lemma sync_pass_store:
  assumes "\<forall>j. se_remove env j" and "distinct (map pd_id (st_records st))"
  shows "st_records (dr_store (replay_loop env endpoint note 0 (st_records st)
            \<lparr>dr_store = st, dr_sent = sent, dr_notes = notes\<rparr>)) =
         not_synced env endpoint 0 (st_records st)"
proof -
  from replay_loop_store [OF assms(1), of endpoint "note" 0 "st_records st"
      "\<lparr>dr_store = st, dr_sent = sent, dr_notes = notes\<rparr>"] assms(2)
  have "st_records (dr_store (replay_loop env endpoint note 0 (st_records st)
            \<lparr>dr_store = st, dr_sent = sent, dr_notes = notes\<rparr>)) =
     filter (\<lambda>p. pd_id p \<notin> pd_id ` {x \<in> set (st_records st).
          x \<notin> set (not_synced env endpoint 0 (st_records st))}) (st_records st)"
    by simp
  with filter_not_synced [OF assms(2)] show ?thesis by simp
qed

text \<open>
  C2: in one pass of \<open>syncClockInData\<close> (and likewise \<open>syncClockOutData\<close>) in which the store
  opens, is read and accepts the removals, every entry of the store is replayed, in the
  order of the store, which is the order of insertion for a store filled by \<open>add\<close>; the
  entries left in the store afterwards are, in their order, those whose replay did not
  return a success response: the entry at position \<open>k\<close> stays exactly when its replay was
  rejected or answered with a status that is not ok.  A failed replay does not end the
  pass: the later entries are still replayed.
\<close>

theorem sync_pass_fifo:
  assumes "se_open env" and "se_getAll env" and "\<forall>j. se_remove env j"
      and "distinct (map pd_id (st_records (pendingClockIns w)))"
      and "distinct (map pd_id (st_records (pendingClockOuts w)))"
  shows
  "sw_sent (syncClockInData env w) =
     sw_sent w @ map (\<lambda>x. (''/api/clockin'', pd_data x)) (st_records (pendingClockIns w)) \<and>
   st_records (pendingClockIns (syncClockInData env w)) =
     not_synced env ''/api/clockin'' 0 (st_records (pendingClockIns w)) \<and>
   (\<forall>k < length (st_records (pendingClockIns w)).
      (st_records (pendingClockIns w) ! k \<in> set (st_records (pendingClockIns (syncClockInData env w)))) =
      (\<not> replay_ok env ''/api/clockin'' k (st_records (pendingClockIns w) ! k))) \<and>
   sw_sent (syncClockOutData env w) =
     sw_sent w @ map (\<lambda>x. (''/api/clockout'', pd_data x)) (st_records (pendingClockOuts w)) \<and>
   st_records (pendingClockOuts (syncClockOutData env w)) =
     not_synced env ''/api/clockout'' 0 (st_records (pendingClockOuts w)) \<and>
   (\<forall>k < length (st_records (pendingClockOuts w)).
      (st_records (pendingClockOuts w) ! k \<in> set (st_records (pendingClockOuts (syncClockOutData env w)))) =
      (\<not> replay_ok env ''/api/clockout'' k (st_records (pendingClockOuts w) ! k))) \<and>
   map snd (sw_sent (syncClockInData env
       (w\<lparr>pendingClockIns := enqueue_all ds, sw_sent := []\<rparr>))) = ds"
proof -
  have in_sent: "sw_sent (syncClockInData env w') =
     sw_sent w' @ map (\<lambda>x. (''/api/clockin'', pd_data x)) (st_records (pendingClockIns w'))" for w'
    using assms(1,2) by (simp add: syncClockInData_def Let_def replay_loop_sent)
  have out_sent: "sw_sent (syncClockOutData env w) =
     sw_sent w @ map (\<lambda>x. (''/api/clockout'', pd_data x)) (st_records (pendingClockOuts w))"
    using assms(1,2) by (simp add: syncClockOutData_def Let_def replay_loop_sent)
  have in_store: "st_records (pendingClockIns (syncClockInData env w)) =
     not_synced env ''/api/clockin'' 0 (st_records (pendingClockIns w))"
    using assms(1,2) sync_pass_store [OF assms(3,4)]
    by (simp add: syncClockInData_def Let_def)
  have out_store: "st_records (pendingClockOuts (syncClockOutData env w)) =
     not_synced env ''/api/clockout'' 0 (st_records (pendingClockOuts w))"
    using assms(1,2) sync_pass_store [OF assms(3,5)]
    by (simp add: syncClockOutData_def Let_def)
  from assms(4) have d_in: "distinct (st_records (pendingClockIns w))"
    by (simp add: distinct_map)
  from assms(5) have d_out: "distinct (st_records (pendingClockOuts w))"
    by (simp add: distinct_map)
  have in_nth: "\<forall>k < length (st_records (pendingClockIns w)).
      (st_records (pendingClockIns w) ! k \<in> set (st_records (pendingClockIns (syncClockInData env w)))) =
      (\<not> replay_ok env ''/api/clockin'' k (st_records (pendingClockIns w) ! k))"
    using not_synced_nth [OF d_in, of _ env "''/api/clockin''" 0] by (simp add: in_store)
  have out_nth: "\<forall>k < length (st_records (pendingClockOuts w)).
      (st_records (pendingClockOuts w) ! k \<in> set (st_records (pendingClockOuts (syncClockOutData env w)))) =
      (\<not> replay_ok env ''/api/clockout'' k (st_records (pendingClockOuts w) ! k))"
    using not_synced_nth [OF d_out, of _ env "''/api/clockout''" 0] by (simp add: out_store)
  have fifo: "map snd (sw_sent (syncClockInData env
       (w\<lparr>pendingClockIns := enqueue_all ds, sw_sent := []\<rparr>))) = ds"
    by (simp add: in_sent comp_def enqueue_all_data)
  from in_sent [of w] in_store in_nth out_sent out_store out_nth fifo show ?thesis by blast
qed

theorem sync_pass_fifo_witness:
  "se_open sample_env \<and> se_getAll sample_env \<and> (\<forall>j. se_remove sample_env j) \<and>
   distinct (map pd_id (st_records (pendingClockIns sample_world))) \<and>
   distinct (map pd_id (st_records (pendingClockOuts sample_world))) \<and>
   sw_sent (syncClockInData sample_env sample_world) =
     [(''/api/clockin'', JStr ''first''), (''/api/clockin'', JStr ''second'')] \<and>
   st_records (pendingClockIns (syncClockInData sample_env sample_world)) =
     [\<lparr>pd_id = 1, pd_data = JStr ''first''\<rparr>]"
proof -
  have recs: "st_records (pendingClockIns sample_world) =
      [\<lparr>pd_id = 1, pd_data = JStr ''first''\<rparr>, \<lparr>pd_id = 2, pd_data = JStr ''second''\<rparr>]"
    by (simp add: sample_world_def enqueue_all_def idb_add_def idb_empty_def)
  have h: "se_open sample_env" "se_getAll sample_env" "\<forall>j. se_remove sample_env j"
    by (simp_all add: sample_env_def)
  have d1: "distinct (map pd_id (st_records (pendingClockIns sample_world)))"
    by (simp add: recs)
  have d2: "distinct (map pd_id (st_records (pendingClockOuts sample_world)))"
    by (simp add: sample_world_def idb_empty_def)
  have sent0: "sw_sent sample_world = []" by (simp add: sample_world_def)
  from sync_pass_fifo [OF h d1 d2]
  have "sw_sent (syncClockInData sample_env sample_world) =
      sw_sent sample_world @
      map (\<lambda>x. (''/api/clockin'', pd_data x)) (st_records (pendingClockIns sample_world))"
    and "st_records (pendingClockIns (syncClockInData sample_env sample_world)) =
      not_synced sample_env ''/api/clockin'' 0 (st_records (pendingClockIns sample_world))"
    by blast+
  with h d1 d2 show ?thesis
    by (simp add: recs sent0 replay_ok_def sample_env_def ok_def)
qed

section \<open>Proofs: \<open>ClockManager\<close>\<close>

text \<open>
  C1 fails on the code.  A clock-in (and a clock-out) whose API call is rejected while
  \<open>navigator.onLine\<close> is false does not return the soft success: the \<open>catch\<close> block reads
  \<open>clockData\<close>, which is out of scope there, so the method's promise is rejected with a
  \<open>ReferenceError\<close> and nothing is written to the pending-action store.
\<close>

theorem clockIn_offline_rejects:
  "clockIn offline_env (JStr ''Somchai'') (JObj [(''note'', JStr ''late'')]) fresh_state =
     (Rejected (ReferenceError ''clockData''), fresh_state) \<and>
   clockOut offline_env (JStr ''Somchai'') (JObj []) fresh_state =
     (Rejected (ReferenceError ''clockData''), fresh_state) \<and>
   cs_pendingActions (snd (clockIn offline_env (JStr ''Somchai'')
                             (JObj [(''note'', JStr ''late'')]) fresh_state)) = []"
  by (simp add: clockIn_def clockOut_def clock_catch_def offline_env_def fresh_state_def)

text \<open>
  The same holds for every employee, every option object and every state, whenever the
  call is rejected offline and the global object has no property \<open>clockData\<close>.
\<close>

lemma clock_offline_rejects_general:
  assumes "\<forall>endpoint body. \<exists>e. ce_api_call env endpoint body = Rejected e"
      and "\<not> ce_onLine env" and "ce_globals env ''clockData'' = None"
  shows "clockIn env employeeName options s = (Rejected (ReferenceError ''clockData''), s)"
    and "clockOut env employeeName options s = (Rejected (ReferenceError ''clockData''), s)"
proof -
  have caught: "clock_catch env type e s = (Rejected (ReferenceError ''clockData''), s)"
    for type e
    using assms(2,3) by (simp add: clock_catch_def)
  have call: "(case ce_api_call env endpoint body of
        Resolved response \<Rightarrow> g response
      | Rejected error \<Rightarrow> clock_catch env type error s) =
      (Rejected (ReferenceError ''clockData''), s)"
    for endpoint body type and g :: "jsval \<Rightarrow> clock_result outcome \<times> clock_state"
  proof -
    obtain e where "ce_api_call env endpoint body = Rejected e" using assms(1) by blast
    then show ?thesis by (simp add: caught)
  qed
  show "clockIn env employeeName options s = (Rejected (ReferenceError ''clockData''), s)"
    by (simp add: clockIn_def Let_def call caught)
  show "clockOut env employeeName options s = (Rejected (ReferenceError ''clockData''), s)"
    by (simp add: clockOut_def Let_def call caught)
qed

section \<open>Proofs: the application-level drain\<close>

lemma finish_settles:
  "finish a syncedCount failedCount = (a', q) \<Longrightarrow> q = None \<and> \<not> syncInProgress a'"
  by (auto simp: finish_def Let_def)

lemma replay_from_result:
  "replay_from a xs syncedCount failedCount = (a', q) \<Longrightarrow>
     (q = None \<and> \<not> syncInProgress a') \<or>
     (\<exists>p. q = Some p \<and> a' = a \<and> 0 < awaits_left p \<and> awaits_left p \<le> 2 * length xs)"
proof (induction xs arbitrary: syncedCount failedCount)
  case Nil
  then show ?case using finish_settles by simp
next
  case (Cons x xs)
  show ?case
  proof (cases "(oa_type x = ''clockin'' \<or> oa_type x = ''clockout'') \<and>
      \<not> (oa_data x = JNull \<or> oa_data x = JUndefined)")
    case True
    with Cons.prems show ?thesis by auto
  next
    case False
    with Cons.prems have "replay_from a xs syncedCount (Suc failedCount) = (a', q)"
      by (auto split: if_splits)
    from Cons.IH [OF this] show ?thesis by auto
  qed
qed

lemma resume_result:
  "resume env p a = (a', q) \<Longrightarrow>
     (q = None \<and> \<not> syncInProgress a') \<or>
     (\<exists>p'. q = Some p' \<and> a' = a \<and>
        (0 < awaits_left p \<longrightarrow> 0 < awaits_left p' \<and> awaits_left p' < awaits_left p))"
proof (cases p)
  case AwaitOpen
  assume "resume env p a = (a', q)"
  with AwaitOpen show ?thesis by (auto split: outcome.splits)
next
  case AwaitGetAll
  assume r: "resume env p a = (a', q)"
  show ?thesis
  proof (cases "on_getAll env")
    case (Resolved pendingActions)
    show ?thesis
    proof (cases "length pendingActions = 0")
      case True
      with r AwaitGetAll Resolved show ?thesis by auto
    next
      case False
      with r AwaitGetAll Resolved have "replay_from a pendingActions 0 0 = (a', q)" by simp
      from replay_from_result [OF this] AwaitGetAll show ?thesis by auto
    qed
  next
    case (Rejected error)
    with r AwaitGetAll show ?thesis by auto
  qed
next
  case (AwaitReplay x xs syncedCount failedCount)
  assume r: "resume env p a = (a', q)"
  show ?thesis
  proof (cases "\<exists>result. on_replay env = Resolved result \<and> cr_success result \<and> \<not> cr_offline result")
    case True
    with r AwaitReplay show ?thesis by auto
  next
    case False
    with r AwaitReplay have "replay_from a xs syncedCount (Suc failedCount) = (a', q)"
      by (auto split: outcome.splits if_splits)
    from replay_from_result [OF this] AwaitReplay show ?thesis by auto
  qed
next
  case (AwaitRemove x xs syncedCount failedCount)
  assume r: "resume env p a = (a', q)"
  then obtain s' f' where "replay_from a xs s' f' = (a', q)"
    using AwaitRemove by (auto split: outcome.splits)
  from replay_from_result [OF this] AwaitRemove show ?thesis by auto
qed

lemma drive_settled: "drive envs n (a, None) = (a, None)"
  by (cases n) simp_all

lemma drive_loop_settles:
  "0 < awaits_left p \<Longrightarrow>
   \<exists>n. snd (drive envs n (a, Some p)) = None \<and> \<not> syncInProgress (fst (drive envs n (a, Some p)))"
proof (induction "awaits_left p" arbitrary: p a envs rule: less_induct)
  case less
  obtain a' q where r: "resume (envs 0) p a = (a', q)" by (cases "resume (envs 0) p a")
  from resume_result [OF r] less.prems
  consider (settled) "q = None" "\<not> syncInProgress a'"
    | (suspended) p' where "q = Some p'" "0 < awaits_left p'" "awaits_left p' < awaits_left p"
    by blast
  then show ?case
  proof cases
    case settled
    with r have "drive envs (Suc 0) (a, Some p) = (a', None)" by simp
    with settled show ?thesis by (metis fst_conv snd_conv)
  next
    case suspended
    from less.hyps [OF suspended(3) suspended(2), of "\<lambda>i. envs (Suc i)" a']
    obtain n where n: "snd (drive (\<lambda>i. envs (Suc i)) n (a', Some p')) = None"
        "\<not> syncInProgress (fst (drive (\<lambda>i. envs (Suc i)) n (a', Some p')))"
      by blast
    from r suspended(1) have "drive envs (Suc n) (a, Some p) =
        drive (\<lambda>i. envs (Suc i)) n (a', Some p')"
      by simp
    with n show ?thesis by metis
  qed
qed

lemma drive_pass_settles:
  "\<exists>n. snd (drive envs n (a, Some p)) = None \<and> \<not> syncInProgress (fst (drive envs n (a, Some p)))"
proof -
  have one: "\<exists>n. snd (drive envs n (a, Some p)) = None \<and>
        \<not> syncInProgress (fst (drive envs n (a, Some p)))"
    if nxt: "\<And>a' p'. resume (envs 0) p a = (a', Some p') \<Longrightarrow>
        \<exists>n. snd (drive (\<lambda>i. envs (Suc i)) n (a', Some p')) = None \<and>
            \<not> syncInProgress (fst (drive (\<lambda>i. envs (Suc i)) n (a', Some p')))"
    for envs a p
  proof -
    obtain a' q where r: "resume (envs 0) p a = (a', q)" by (cases "resume (envs 0) p a")
    show ?thesis
    proof (cases q)
      case None
      with resume_result [OF r] have "\<not> syncInProgress a'" by auto
      moreover from r None have "drive envs (Suc 0) (a, Some p) = (a', None)" by simp
      ultimately show ?thesis by (metis fst_conv snd_conv)
    next
      case (Some p')
      from nxt [of a' p'] r Some obtain n where
        n: "snd (drive (\<lambda>i. envs (Suc i)) n (a', Some p')) = None"
           "\<not> syncInProgress (fst (drive (\<lambda>i. envs (Suc i)) n (a', Some p')))"
        by blast
      from r Some have "drive envs (Suc n) (a, Some p) =
          drive (\<lambda>i. envs (Suc i)) n (a', Some p')"
        by simp
      with n show ?thesis by metis
    qed
  qed
  have loop: "\<exists>n. snd (drive envs n (a, Some p)) = None \<and>
        \<not> syncInProgress (fst (drive envs n (a, Some p)))"
    if "0 < awaits_left p" for envs a p
    using that by (rule drive_loop_settles)
  have getall: "\<exists>n. snd (drive envs n (a, Some AwaitGetAll)) = None \<and>
        \<not> syncInProgress (fst (drive envs n (a, Some AwaitGetAll)))" for envs a
  proof (rule one)
    fix a' p'
    assume r: "resume (envs 0) AwaitGetAll a = (a', Some p')"
    then have "0 < awaits_left p'"
      using replay_from_result [of a _ 0 0 a' "Some p'"]
      by (auto split: outcome.splits if_splits)
    then show "\<exists>n. snd (drive (\<lambda>i. envs (Suc i)) n (a', Some p')) = None \<and>
        \<not> syncInProgress (fst (drive (\<lambda>i. envs (Suc i)) n (a', Some p')))"
      by (rule loop)
  qed
  show ?thesis
  proof (cases "0 < awaits_left p")
    case True
    then show ?thesis by (rule loop)
  next
    case False
    then consider "p = AwaitOpen" | "p = AwaitGetAll" by (cases p) auto
    then show ?thesis
    proof cases
      case 1
      show ?thesis unfolding 1
      proof (rule one)
        fix a' p'
        assume "resume (envs 0) AwaitOpen a = (a', Some p')"
        then have "p' = AwaitGetAll" by (auto split: outcome.splits)
        then show "\<exists>n. snd (drive (\<lambda>i. envs (Suc i)) n (a', Some p')) = None \<and>
            \<not> syncInProgress (fst (drive (\<lambda>i. envs (Suc i)) n (a', Some p')))"
          using getall by simp
      qed
    next
      case 2
      then show ?thesis using getall by simp
    qed
  qed
qed

subsection \<open>At most one pass in flight\<close>

lemma one_pass_initial: "one_pass (initial online)"
  by (simp add: one_pass_def initial_def)

lemma one_pass_call_sync: "one_pass s \<Longrightarrow> one_pass (call_sync s)"
  by (auto simp: one_pass_def call_sync_def syncOfflineData_def)

lemma one_pass_step: "one_pass s \<Longrightarrow> one_pass (step s ev)"
proof (cases ev)
  case WentOnline
  assume "one_pass s"
  then have "one_pass (s\<lparr>sy_app := (sy_app s)\<lparr>isOnline := True,
      toasts := toasts (sy_app s) @ [ConnectedToast]\<rparr>\<rparr>)"
    by (simp add: one_pass_def)
  then show ?thesis unfolding WentOnline step.simps by (rule one_pass_call_sync)
next
  case WentOffline
  assume "one_pass s"
  with WentOffline show ?thesis by (simp add: one_pass_def)
next
  case BecameVisible
  assume "one_pass s"
  with BecameVisible show ?thesis by (simp add: one_pass_call_sync)
next
  case TimerTick
  assume "one_pass s"
  with TimerTick show ?thesis by (simp add: one_pass_call_sync)
next
  case ForceSync
  assume "one_pass s"
  with ForceSync show ?thesis by (auto simp: one_pass_call_sync) (simp add: one_pass_def)
next
  case (Resume i env)
  assume inv: "one_pass s"
  show ?thesis
  proof (cases "i < length (sy_running s)")
    case False
    with Resume inv show ?thesis by simp
  next
    case True
    with inv have i0: "i = 0" and len: "length (sy_running s) = 1"
      and flag: "syncInProgress (sy_app s)"
      by (auto simp: one_pass_def)
    obtain a' q where r: "resume env (sy_running s ! i) (sy_app s) = (a', q)"
      by (cases "resume env (sy_running s ! i) (sy_app s)")
    from resume_result [OF r]
    show ?thesis
    proof
      assume "q = None \<and> \<not> syncInProgress a'"
      with r True Resume len i0 show ?thesis
        by (simp add: one_pass_def drop_nth_def)
    next
      assume "\<exists>p'. q = Some p' \<and> a' = sy_app s \<and>
        (0 < awaits_left (sy_running s ! i) \<longrightarrow>
           0 < awaits_left p' \<and> awaits_left p' < awaits_left (sy_running s ! i))"
      then obtain p' where "q = Some p'" "a' = sy_app s" by blast
      moreover from len have "sy_running s \<noteq> []" by auto
      ultimately show ?thesis using r True Resume len flag
        by (simp add: one_pass_def)
    qed
  qed
qed

lemma one_pass_run: "one_pass (run online evs)"
proof (induction evs rule: rev_induct)
  case Nil
  then show ?case by (simp add: run_def one_pass_initial)
next
  case (snoc ev evs)
  then show ?case by (simp add: run_def one_pass_step)
qed

text \<open>
  C3 as stated fails for the drain of the page script: \<open>syncOfflineActions\<close> has no
  in-progress flag, so two triggers one after the other, before any response has come
  back, leave two passes in flight, and the stored action is posted twice.
\<close>

theorem syncOfflineActions_double_counterexample:
  "\<not> length (lg_running (syncOfflineActions sample_stringify 1000
                            (syncOfflineActions sample_stringify 0 sample_page))) \<le> 1 \<and>
   lg_sent (syncOfflineActions sample_stringify 1000
              (syncOfflineActions sample_stringify 0 sample_page)) =
     [(''/api/clockin'', JObj [(''employee'', JStr ''Somchai'')]),
      (''/api/clockin'', JObj [(''employee'', JStr ''Somchai'')])]"
  by (simp add: syncOfflineActions_def sample_page_def sample_action_def ajax_cached_def
      action_url_def scripturl_def Let_def)

text \<open>
  C3 (amended, for the application-level drain \<open>syncOfflineData\<close>): however the handlers
  and the resumptions of passes interleave, at most one pass is in flight.  While one is, a
  call of \<open>syncOfflineData\<close> returns at the guard and changes nothing, and so do the handlers
  that call it; the call is not remembered anywhere: when the pass in flight then settles,
  no pass is in flight.
\<close>

theorem syncOfflineData_single_pass:
  "length (sy_running (run online evs)) \<le> 1 \<and>
   (sy_running (run online evs) \<noteq> [] \<longrightarrow>
      syncOfflineData (sy_app (run online evs)) = (sy_app (run online evs), None) \<and>
      call_sync (run online evs) = run online evs \<and>
      step (run online evs) TimerTick = run online evs \<and>
      step (run online evs) BecameVisible = run online evs \<and>
      (isOnline (sy_app (run online evs)) \<longrightarrow>
         step (run online evs) ForceSync = run online evs) \<and>
      (snd (resume env (sy_running (run online evs) ! 0) (sy_app (run online evs))) = None \<longrightarrow>
         sy_running (step (call_sync (run online evs)) (Resume 0 env)) = []))"
proof -
  let ?s = "run online evs"
  have inv: "one_pass ?s" by (rule one_pass_run)
  then have len: "length (sy_running ?s) \<le> 1" by (simp add: one_pass_def)
  have rest: "syncOfflineData (sy_app ?s) = (sy_app ?s, None) \<and>
      call_sync ?s = ?s \<and> step ?s TimerTick = ?s \<and> step ?s BecameVisible = ?s \<and>
      (isOnline (sy_app ?s) \<longrightarrow> step ?s ForceSync = ?s) \<and>
      (snd (resume env (sy_running ?s ! 0) (sy_app ?s)) = None \<longrightarrow>
         sy_running (step (call_sync ?s) (Resume 0 env)) = [])"
    if run: "sy_running ?s \<noteq> []"
  proof -
    from inv run have flag: "syncInProgress (sy_app ?s)" by (simp add: one_pass_def)
    then have g: "syncOfflineData (sy_app ?s) = (sy_app ?s, None)"
      by (simp add: syncOfflineData_def)
    then have c: "call_sync ?s = ?s" by (simp add: call_sync_def)
    have t: "step ?s TimerTick = ?s" using flag by simp
    have v: "step ?s BecameVisible = ?s" using c by simp
    have f: "isOnline (sy_app ?s) \<longrightarrow> step ?s ForceSync = ?s" using c by simp
    have r: "sy_running (step (call_sync ?s) (Resume 0 env)) = []"
      if "snd (resume env (sy_running ?s ! 0) (sy_app ?s)) = None"
    proof -
      from that obtain a' where "resume env (sy_running ?s ! 0) (sy_app ?s) = (a', None)"
        by (cases "resume env (sy_running ?s ! 0) (sy_app ?s)") auto
      moreover from run have "0 < length (sy_running ?s)" by simp
      ultimately have "sy_running (step ?s (Resume 0 env)) = drop_nth 0 (sy_running ?s)"
        by simp
      also from len have "\<dots> = []" by (simp add: drop_nth_def)
      finally show ?thesis using c by simp
    qed
    from g c t v f r show ?thesis by blast
  qed
  from len rest show ?thesis by blast
qed

theorem syncOfflineData_single_pass_witness:
  "sy_running (run True [ForceSync]) \<noteq> [] \<and>
   length (sy_running (run True [ForceSync])) \<le> 1 \<and>
   run True [ForceSync, ForceSync] = run True [ForceSync] \<and>
   snd (resume open_fails (sy_running (run True [ForceSync]) ! 0)
          (sy_app (run True [ForceSync]))) = None \<and>
   sy_running (step (call_sync (run True [ForceSync])) (Resume 0 open_fails)) = []"
proof -
  have r: "run True [ForceSync] =
      \<lparr>sy_app = \<lparr>syncInProgress = True, isOnline = True, toasts = []\<rparr>,
       sy_running = [AwaitOpen]\<rparr>"
    by (simp add: run_def initial_def call_sync_def syncOfflineData_def)
  then have ne: "sy_running (run True [ForceSync]) \<noteq> []" by simp
  from r have on: "isOnline (sy_app (run True [ForceSync]))" by simp
  from r have op: "snd (resume open_fails (sy_running (run True [ForceSync]) ! 0)
          (sy_app (run True [ForceSync]))) = None"
    by (simp add: open_fails_def all_resolve_def)
  have two: "run True [ForceSync, ForceSync] = step (run True [ForceSync]) ForceSync"
    by (simp add: run_def)
  from syncOfflineData_single_pass [of True "[ForceSync]" open_fails] ne on op
  have "length (sy_running (run True [ForceSync])) \<le> 1"
    and "step (run True [ForceSync]) ForceSync = run True [ForceSync]"
    and "sy_running (step (call_sync (run True [ForceSync])) (Resume 0 open_fails)) = []"
    by blast+
  with ne op two show ?thesis by simp
qed

subsection \<open>The flag is reset\<close>

text \<open>
  C10 as stated fails for an invocation made while a pass is in flight: it returns at the
  guard, so it has settled, and the flag is still set.
\<close>

theorem syncOfflineData_guard_counterexample:
  "\<not> (snd (syncOfflineData (sy_app (run True [ForceSync]))) = None \<longrightarrow>
        \<not> syncInProgress (fst (syncOfflineData (sy_app (run True [ForceSync])))))"
  by (simp add: run_def initial_def call_sync_def syncOfflineData_def)

text \<open>
  C10 (amended): every invocation of \<open>syncOfflineData\<close> made while the flag is not set
  settles after finitely many of its awaited promises have settled, however they settle
  (the database not opening, the store not being read or being empty, a replay rejected or
  unsuccessful, a removal rejected), and the flag is not set when it has; an invocation
  made while the flag is set returns at the guard and leaves the flag to the pass in
  flight.  So the flag is set only while a pass is in flight, and with no pass in flight a
  trigger received online starts one.
\<close>

theorem syncOfflineData_resets_flag:
  "(\<not> syncInProgress a \<longrightarrow>
      (\<exists>n. snd (drive envs n (syncOfflineData a)) = None \<and>
           \<not> syncInProgress (fst (drive envs n (syncOfflineData a))))) \<and>
   (syncInProgress a \<longrightarrow> syncOfflineData a = (a, None)) \<and>
   (sy_running (run online evs) = [] \<longrightarrow> \<not> syncInProgress (sy_app (run online evs))) \<and>
   (sy_running (run online evs) = [] \<and> isOnline (sy_app (run online evs)) \<longrightarrow>
      sy_running (call_sync (run online evs)) = [AwaitOpen])"
proof (intro conjI impI)
  assume nf: "\<not> syncInProgress a"
  show "\<exists>n. snd (drive envs n (syncOfflineData a)) = None \<and>
           \<not> syncInProgress (fst (drive envs n (syncOfflineData a)))"
  proof (cases "isOnline a")
    case True
    with nf have "syncOfflineData a = (a\<lparr>syncInProgress := True\<rparr>, Some AwaitOpen)"
      by (simp add: syncOfflineData_def)
    with drive_pass_settles [of envs "a\<lparr>syncInProgress := True\<rparr>" AwaitOpen]
    show ?thesis by simp
  next
    case False
    then have "syncOfflineData a = (a, None)" by (simp add: syncOfflineData_def)
    with nf have "snd (drive envs 0 (syncOfflineData a)) = None \<and>
        \<not> syncInProgress (fst (drive envs 0 (syncOfflineData a)))"
      by simp
    then show ?thesis by blast
  qed
next
  assume "syncInProgress a"
  then show "syncOfflineData a = (a, None)" by (simp add: syncOfflineData_def)
next
  assume "sy_running (run online evs) = []"
  with one_pass_run [of online evs] show "\<not> syncInProgress (sy_app (run online evs))"
    by (simp add: one_pass_def)
next
  assume h: "sy_running (run online evs) = [] \<and> isOnline (sy_app (run online evs))"
  with one_pass_run [of online evs] have "\<not> syncInProgress (sy_app (run online evs))"
    by (simp add: one_pass_def)
  with h show "sy_running (call_sync (run online evs)) = [AwaitOpen]"
    by (simp add: call_sync_def syncOfflineData_def)
qed

theorem syncOfflineData_resets_flag_witness:
  "\<not> syncInProgress (sy_app (initial True)) \<and>
   (\<exists>n. snd (drive (\<lambda>i. all_resolve) n (syncOfflineData (sy_app (initial True)))) = None \<and>
        \<not> syncInProgress (fst (drive (\<lambda>i. all_resolve) n
                                    (syncOfflineData (sy_app (initial True)))))) \<and>
   syncInProgress (sy_app (run True [ForceSync])) \<and>
   syncOfflineData (sy_app (run True [ForceSync])) = (sy_app (run True [ForceSync]), None) \<and>
   sy_running (run True [ForceSync, Resume 0 open_fails]) = [] \<and>
   isOnline (sy_app (run True [ForceSync, Resume 0 open_fails])) \<and>
   \<not> syncInProgress (sy_app (run True [ForceSync, Resume 0 open_fails])) \<and>
   sy_running (call_sync (run True [ForceSync, Resume 0 open_fails])) = [AwaitOpen]"
proof -
  have a0: "\<not> syncInProgress (sy_app (initial True))" by (simp add: initial_def)
  have r1: "run True [ForceSync] =
      \<lparr>sy_app = \<lparr>syncInProgress = True, isOnline = True, toasts = []\<rparr>,
       sy_running = [AwaitOpen]\<rparr>"
    by (simp add: run_def initial_def call_sync_def syncOfflineData_def)
  then have f1: "syncInProgress (sy_app (run True [ForceSync]))" by simp
  have r2: "run True [ForceSync, Resume 0 open_fails] =
      \<lparr>sy_app = \<lparr>syncInProgress = False, isOnline = True, toasts = []\<rparr>, sy_running = []\<rparr>"
    by (simp add: run_def initial_def call_sync_def syncOfflineData_def open_fails_def
        all_resolve_def drop_nth_def)
  then have e2: "sy_running (run True [ForceSync, Resume 0 open_fails]) = []"
    and o2: "isOnline (sy_app (run True [ForceSync, Resume 0 open_fails]))"
    by simp_all
  from a0 syncOfflineData_resets_flag [of "sy_app (initial True)" "\<lambda>i. all_resolve"]
  have 1: "\<exists>n. snd (drive (\<lambda>i. all_resolve) n (syncOfflineData (sy_app (initial True)))) = None \<and>
        \<not> syncInProgress (fst (drive (\<lambda>i. all_resolve) n
                                    (syncOfflineData (sy_app (initial True)))))"
    by blast
  from f1 syncOfflineData_resets_flag [of "sy_app (run True [ForceSync])"]
  have 2: "syncOfflineData (sy_app (run True [ForceSync])) = (sy_app (run True [ForceSync]), None)"
    by blast
  from e2 o2 syncOfflineData_resets_flag [where online = True
      and evs = "[ForceSync, Resume 0 open_fails]"]
  have 3: "\<not> syncInProgress (sy_app (run True [ForceSync, Resume 0 open_fails]))"
    and 4: "sy_running (call_sync (run True [ForceSync, Resume 0 open_fails])) = [AwaitOpen]"
    by blast+
  from a0 1 f1 2 e2 o2 3 4 show ?thesis by blast
qed

section \<open>Proofs: cache keys\<close>


lemma method_or_GET_nonempty: "method_or_GET m \<noteq> []"
  by (simp add: method_or_GET_def split: option.splits)



section \<open>Proofs: the in-memory API cache\<close>

lemma cache_step_written:
  assumes "\<forall>k e. c k = Some e \<longrightarrow> written_by ops k e"
      and "cache_step c x k = Some e"
  shows "written_by (ops @ [x]) k e"
proof (cases x)
  case (OpSet now key d ttl)
  show ?thesis
  proof (cases "k = key")
    case True
    with assms(2) OpSet have "e = \<lparr>ce_data = d, ce_expires = now + ttl\<rparr>"
      by (simp add: setCache_def)
    with True OpSet show ?thesis
      unfolding written_by_def by auto
  next
    case False
    with assms(2) OpSet have "c k = Some e" by (simp add: setCache_def)
    with assms(1) have "written_by ops k e" by blast
    then show ?thesis unfolding written_by_def by auto
  qed
next
  case (OpGet now key)
  with assms(2) have "c k = Some e"
    by (auto simp: getFromCache_def split: option.splits if_splits)
  with assms(1) have "written_by ops k e" by blast
  then show ?thesis unfolding written_by_def by auto
next
  case OpClear
  with assms(2) show ?thesis by (simp add: clearCache_def)
qed

lemma cache_after_written:
  "cache_after ops k = Some e \<Longrightarrow> written_by ops k e"
proof (induction ops arbitrary: k e rule: rev_induct)
  case Nil
  then show ?case by (simp add: cache_after_def)
next
  case (snoc x xs)
  have "\<forall>k e. cache_after xs k = Some e \<longrightarrow> written_by xs k e"
    using snoc.IH by blast
  moreover have "cache_step (cache_after xs) x k = Some e"
    using snoc.prems by (simp add: cache_after_def)
  ultimately show ?case by (rule cache_step_written)
qed

text \<open>
  C9 as stated fails at the boundary: an entry stored at time 0 with a time-to-live of
  30000 ms is still returned at time 30000, when exactly the time-to-live has elapsed,
  because the expiry test is \<open>Date.now() > cached.expires\<close>.
\<close>

theorem getFromCache_boundary_counterexample:
  "\<not> (fst (getFromCache 30000 ''/employees:{}''
             (setCache 0 ''/employees:{}'' (JBool True) 30000 Map.empty)) = Some (JBool True)
        \<longrightarrow> (30000::int) - 0 < 30000)"
  by (simp add: getFromCache_def setCache_def)

text \<open>
  C9 (amended): whatever the history of cache operations, a lookup that returns a value
  returns the data of a \<open>setCache\<close> for the same key of that history, at most (not: less
  than) that entry's time-to-live after it was stored, and leaves the cache as it is; a
  lookup of an entry whose expiry has passed deletes the entry and returns null.
\<close>

theorem getFromCache_within_ttl:
  "(getFromCache now key (cache_after ops) = (Some d, c') \<longrightarrow>
      c' = cache_after ops \<and>
      (\<exists>t0 ttl. OpSet t0 key d ttl \<in> set ops \<and> now - t0 \<le> ttl)) \<and>
   (cache_after ops key = Some e \<and> now > ce_expires e \<longrightarrow>
      getFromCache now key (cache_after ops) = (None, (cache_after ops)(key := None)))"
proof (intro conjI impI)
  assume hit: "getFromCache now key (cache_after ops) = (Some d, c')"
  then obtain e where e: "cache_after ops key = Some e" "\<not> now > ce_expires e"
      "d = ce_data e" "c' = cache_after ops"
    by (auto simp: getFromCache_def split: option.splits if_splits)
  from e(1) have "written_by ops key e" by (rule cache_after_written)
  then obtain t0 ttl where "OpSet t0 key (ce_data e) ttl \<in> set ops" "ce_expires e = t0 + ttl"
    unfolding written_by_def by blast
  moreover from this e(2) have "now - t0 \<le> ttl" by simp
  ultimately have "OpSet t0 key d ttl \<in> set ops \<and> now - t0 \<le> ttl"
    using e(3) by simp
  then show "\<exists>t0 ttl. OpSet t0 key d ttl \<in> set ops \<and> now - t0 \<le> ttl" by blast
  from e(4) show "c' = cache_after ops" .
next
  assume "cache_after ops key = Some e \<and> now > ce_expires e"
  then show "getFromCache now key (cache_after ops) = (None, (cache_after ops)(key := None))"
    by (simp add: getFromCache_def)
qed

theorem getFromCache_within_ttl_witness:
  "getFromCache 20000 ''k'' (cache_after [OpSet 0 ''k'' (JNum 7) 30000]) =
     (Some (JNum 7), cache_after [OpSet 0 ''k'' (JNum 7) 30000]) \<and>
   (\<exists>t0 ttl. OpSet t0 ''k'' (JNum 7) ttl \<in> set [OpSet 0 ''k'' (JNum 7) 30000] \<and> (20000::int) - t0 \<le> ttl) \<and>
   cache_after [OpSet 0 ''k'' (JNum 7) 30000] ''k'' = Some \<lparr>ce_data = JNum 7, ce_expires = 30000\<rparr> \<and>
   getFromCache 30001 ''k'' (cache_after [OpSet 0 ''k'' (JNum 7) 30000]) =
     (None, (cache_after [OpSet 0 ''k'' (JNum 7) 30000])(''k'' := None))"
proof -
  have h: "getFromCache 20000 ''k'' (cache_after [OpSet 0 ''k'' (JNum 7) 30000]) =
     (Some (JNum 7), cache_after [OpSet 0 ''k'' (JNum 7) 30000])"
    by (simp add: getFromCache_def cache_after_def setCache_def)
  have e: "cache_after [OpSet 0 ''k'' (JNum 7) 30000] ''k'' = Some \<lparr>ce_data = JNum 7, ce_expires = 30000\<rparr>"
    by (simp add: cache_after_def setCache_def)
  from getFromCache_within_ttl [of 20000 "''k''" "[OpSet 0 ''k'' (JNum 7) 30000]" "JNum 7"
      "cache_after [OpSet 0 ''k'' (JNum 7) 30000]"] h
  have a: "\<exists>t0 ttl. OpSet t0 ''k'' (JNum 7) ttl \<in> set [OpSet 0 ''k'' (JNum 7) 30000] \<and> (20000::int) - t0 \<le> ttl"
    by blast
  from getFromCache_within_ttl [of 30001 "''k''" "[OpSet 0 ''k'' (JNum 7) 30000]" "JNum 7"
      "cache_after [OpSet 0 ''k'' (JNum 7) 30000]" "\<lparr>ce_data = JNum 7, ce_expires = 30000\<rparr>"] e
  have b: "getFromCache 30001 ''k'' (cache_after [OpSet 0 ''k'' (JNum 7) 30000]) =
     (None, (cache_after [OpSet 0 ''k'' (JNum 7) 30000])(''k'' := None))"
    by simp
  from h a e b show ?thesis by blast
qed

end
